theory Spec2Isabelle
  imports Complex_Main "HOL-Library.Sublist" "HOL-Library.Multiset"
begin

section \<open>Strings\<close>

text \<open>
  A Python string is a sequence of code points. The model covers the code points below
  256, one \<^typ>\<open>char\<close> each; a text with other code points is outside it.
  \<open>needle in hay\<close> is \<^const>\<open>sublist\<close> (a contiguous occurrence). \<open>str.lower()\<close> maps
  the letters A to Z, and the capital letters 0xC0 to 0xDE other than the multiplication
  sign 0xD7, to the code point 32 above, and leaves every other code point of the range
  alone.
\<close>

definition upper_letters :: string where
  "upper_letters =
     ''ABCDEFGHIJKLMNOPQRSTUVWXYZ''
     @ [CHR 0xC0, CHR 0xC1, CHR 0xC2, CHR 0xC3, CHR 0xC4, CHR 0xC5, CHR 0xC6, CHR 0xC7,
        CHR 0xC8, CHR 0xC9, CHR 0xCA, CHR 0xCB, CHR 0xCC, CHR 0xCD, CHR 0xCE, CHR 0xCF,
        CHR 0xD0, CHR 0xD1, CHR 0xD2, CHR 0xD3, CHR 0xD4, CHR 0xD5, CHR 0xD6, CHR 0xD8,
        CHR 0xD9, CHR 0xDA, CHR 0xDB, CHR 0xDC, CHR 0xDD, CHR 0xDE]"

definition lower_letters :: string where
  "lower_letters =
     ''abcdefghijklmnopqrstuvwxyz''
     @ [CHR 0xE0, CHR 0xE1, CHR 0xE2, CHR 0xE3, CHR 0xE4, CHR 0xE5, CHR 0xE6, CHR 0xE7,
        CHR 0xE8, CHR 0xE9, CHR 0xEA, CHR 0xEB, CHR 0xEC, CHR 0xED, CHR 0xEE, CHR 0xEF,
        CHR 0xF0, CHR 0xF1, CHR 0xF2, CHR 0xF3, CHR 0xF4, CHR 0xF5, CHR 0xF6, CHR 0xF8,
        CHR 0xF9, CHR 0xFA, CHR 0xFB, CHR 0xFC, CHR 0xFD, CHR 0xFE]"

definition lower_char :: "char \<Rightarrow> char" where
  "lower_char c =
     (case map_of (zip upper_letters lower_letters) c of
        Some d \<Rightarrow> d
      | None \<Rightarrow> c)"

definition lower :: "string \<Rightarrow> string" where
  "lower s = map lower_char s"

section \<open>modules/ai_client.py: the call budget\<close>

text \<open>
  The module keeps three globals (\<open>_last_api_call_time\<close>, \<open>_api_call_count\<close>,
  \<open>_minute_start_time\<close>) and reads the wall clock with \<open>time.time()\<close>. The model
  passes them explicitly in a record, together with a simulated clock: \<open>time.time()\<close>
  reads the field \<open>clock\<close>, and \<open>time.sleep(d)\<close> advances it by \<open>d\<close>. Time is a
  Python float; it is idealised as a real number. The field \<open>events\<close> is a ghost log of
  what the code did, in order; the code itself never reads it.
\<close>

datatype event =
    Acquire
  | ApiCall nat
  | Sleep real
  | ResetWindow

record world =
  last_api_call_time :: real
  api_call_count :: int
  minute_start_time :: real
  clock :: real
  events :: "event list"

definition MIN_DELAY_BETWEEN_CALLS :: real where
  "MIN_DELAY_BETWEEN_CALLS = 4"

definition MAX_RETRIES :: int where
  "MAX_RETRIES = 4"

definition INITIAL_RETRY_DELAY :: real where
  "INITIAL_RETRY_DELAY = 15"

definition CALLS_PER_MINUTE_LIMIT :: int where
  "CALLS_PER_MINUTE_LIMIT = 20"

text \<open>\<open>time.sleep(d)\<close>: the simulated clock moves on by \<open>d\<close>.\<close>

definition sleep :: "real \<Rightarrow> world \<Rightarrow> world" where
  "sleep d w = w\<lparr>clock := clock w + d, events := events w @ [Sleep d]\<rparr>"

definition reset_minute_counter :: "world \<Rightarrow> world" where
  "reset_minute_counter w =
     (let current_time = clock w in
      if current_time - minute_start_time w \<ge> 60
      then w\<lparr>api_call_count := 0, minute_start_time := current_time\<rparr>
      else w)"

text \<open>The per-minute check of \<open>_wait_for_rate_limit\<close> (source lines 49 to 58).\<close>

definition minute_limit_check :: "world \<Rightarrow> world" where
  "minute_limit_check w =
     (if api_call_count w \<ge> CALLS_PER_MINUTE_LIMIT then
        (let time_elapsed = clock w - minute_start_time w;
             time_remaining = 60 - time_elapsed in
         if time_remaining > 0 then
           (let w' = sleep (time_remaining + 2) w in
            w'\<lparr>api_call_count := 0, minute_start_time := clock w'\<rparr>)
         else w)
      else w)"

text \<open>The minimum spacing of \<open>_wait_for_rate_limit\<close> (source lines 60 to 68).\<close>

definition min_delay_check :: "world \<Rightarrow> world" where
  "min_delay_check w =
     (let current_time = clock w;
          time_since_last_call = current_time - last_api_call_time w in
      if time_since_last_call < MIN_DELAY_BETWEEN_CALLS
      then sleep (MIN_DELAY_BETWEEN_CALLS - time_since_last_call) w
      else w)"

definition wait_for_rate_limit :: "world \<Rightarrow> world" where
  "wait_for_rate_limit w =
     (let w1 = reset_minute_counter w;
          w2 = minute_limit_check w1;
          w3 = min_delay_check w2 in
      w3\<lparr>last_api_call_time := clock w3,
         api_call_count := api_call_count w3 + 1,
         events := events w3 @ [Acquire]\<rparr>)"

text \<open>
  A caller that acquires repeatedly, idling for \<open>g\<close> seconds before each acquire
  (the list holds the idle times, each at least 0 in a real run).
\<close>

fun acquire_all :: "world \<Rightarrow> real list \<Rightarrow> world" where
  "acquire_all w [] = w"
| "acquire_all w (g # gs) = acquire_all (wait_for_rate_limit (w\<lparr>clock := clock w + g\<rparr>)) gs"

text \<open>Three tracker states: inside the window below the limit, inside the window at the
  limit, and past the end of the window.\<close>

definition w_open :: world where
  "w_open = \<lparr>last_api_call_time = 28, api_call_count = 7, minute_start_time = 0,
              clock = 30, events = []\<rparr>"

definition w_full :: world where
  "w_full = \<lparr>last_api_call_time = 28, api_call_count = 20, minute_start_time = 0,
              clock = 30, events = []\<rparr>"

definition w_late :: world where
  "w_late = \<lparr>last_api_call_time = 28, api_call_count = 12, minute_start_time = 0,
              clock = 75, events = []\<rparr>"

section \<open>modules/ai_client.py: generate_content\<close>

text \<open>
  The external call either returns the response text or raises; \<open>Raised e\<close> carries
  \<open>str(e)\<close>. The environment of one invocation is the outcome of each attempt
  (\<open>api attempt\<close>, attempts numbered from 0 as in the source) and the value that
  \<open>random.uniform(2, 8)\<close> returns in it (\<open>jitter attempt\<close>). The call itself takes no
  simulated time. The exceptions that \<open>generate_content\<close> raises are told apart by their
  message; each carries \<open>max_retries\<close> or the original error text.
\<close>

datatype outcome = Returned string | Raised string

datatype error =
    RateLimitExceeded int
  | TimeoutAfter int
  | GroqApiError string
  | FailedAfter int

definition is_rate_limit :: "string \<Rightarrow> bool" where
  "is_rate_limit error_msg =
     list_ex (\<lambda>keyword. sublist keyword error_msg) [''rate'', ''limit'', ''429'', ''quota'']"

text \<open>
  The retry branch of a rate-limit error (source lines 123 to 131): back off, then
  reset the window counter and the window start.
\<close>

definition rate_limit_backoff :: "(nat \<Rightarrow> real) \<Rightarrow> nat \<Rightarrow> world \<Rightarrow> world" where
  "rate_limit_backoff jitter attempt w =
     (let wait_time = INITIAL_RETRY_DELAY * 2 ^ attempt + jitter attempt;
          w' = sleep wait_time w
      in w'\<lparr>api_call_count := 0, minute_start_time := clock w',
            events := events w' @ [ResetWindow]\<rparr>)"

text \<open>The retry branch of a timeout (source lines 144 to 146).\<close>

definition timeout_backoff :: "nat \<Rightarrow> world \<Rightarrow> world" where
  "timeout_backoff attempt w =
     (let wait_time = 10 * (real attempt + 1) in sleep wait_time w)"

text \<open>
  The body of \<open>for attempt in range(max_retries)\<close>, by recursion on the attempts still
  to run; \<open>continue\<close> is the recursive call, and the empty list is the statement after
  the loop.
\<close>

fun retry_loop ::
  "(nat \<Rightarrow> outcome) \<Rightarrow> (nat \<Rightarrow> real) \<Rightarrow> int \<Rightarrow> nat list \<Rightarrow> world \<Rightarrow> (error + string) \<times> world"
where
  "retry_loop api jitter max_retries [] w = (Inl (FailedAfter max_retries), w)"
| "retry_loop api jitter max_retries (attempt # rest) w =
     (let w1 = w\<lparr>events := events w @ [ApiCall attempt]\<rparr> in
      case api attempt of
        Returned response \<Rightarrow> (Inr response, w1)
      | Raised e \<Rightarrow>
          (let error_msg = lower e in
           if is_rate_limit error_msg then
             (if int attempt < max_retries - 1
              then retry_loop api jitter max_retries rest (rate_limit_backoff jitter attempt w1)
              else (Inl (RateLimitExceeded max_retries), w1))
           else if sublist ''timeout'' error_msg then
             (if int attempt < max_retries - 1
              then retry_loop api jitter max_retries rest (timeout_backoff attempt w1)
              else (Inl (TimeoutAfter max_retries), w1))
           else (Inl (GroqApiError e), w1)))"

definition generate_content ::
  "(nat \<Rightarrow> outcome) \<Rightarrow> (nat \<Rightarrow> real) \<Rightarrow> int \<Rightarrow> world \<Rightarrow> (error + string) \<times> world"
where
  "generate_content api jitter max_retries w =
     (let w0 = wait_for_rate_limit w in
      retry_loop api jitter max_retries [0..<nat max_retries] w0)"

text \<open>What one invocation appended to the log, and the attempts in it.\<close>

definition new_events :: "world \<Rightarrow> world \<Rightarrow> event list" where
  "new_events w w' = drop (length (events w)) (events w')"

fun is_api_call :: "event \<Rightarrow> bool" where
  "is_api_call (ApiCall k) = True"
| "is_api_call e = False"

definition attempts_made :: "event list \<Rightarrow> nat" where
  "attempts_made evs = length (filter is_api_call evs)"

definition acquires_and_calls :: "event list \<Rightarrow> event list" where
  "acquires_and_calls evs = filter (\<lambda>e. e = Acquire \<or> is_api_call e) evs"

text \<open>
  The orchestrator as the specification words it: for each attempt, first the acquire,
  then the call. A log satisfies it when every call has an acquire of its own before it.
\<close>

fun acquired_each_attempt :: "bool \<Rightarrow> event list \<Rightarrow> bool" where
  "acquired_each_attempt armed [] = True"
| "acquired_each_attempt armed (Acquire # es) = acquired_each_attempt True es"
| "acquired_each_attempt armed (ApiCall k # es) = (armed \<and> acquired_each_attempt False es)"
| "acquired_each_attempt armed (Sleep d # es) = acquired_each_attempt armed es"
| "acquired_each_attempt armed (ResetWindow # es) = acquired_each_attempt armed es"

definition acquire_before_every_attempt :: "event list \<Rightarrow> bool" where
  "acquire_before_every_attempt evs = acquired_each_attempt False evs"

text \<open>The state of the module right after import, at time 100 on the simulated clock.\<close>

definition w_init :: world where
  "w_init = \<lparr>last_api_call_time = 0, api_call_count = 0, minute_start_time = 100,
              clock = 100, events = []\<rparr>"

text \<open>An external service that answers 429 once and then succeeds.\<close>

definition api_429_once :: "nat \<Rightarrow> outcome" where
  "api_429_once attempt =
     (if attempt = 0 then Raised ''Error code: 429 - Rate limit reached'' else Returned ''ok'')"

text \<open>An external service that answers 429 every time.\<close>

definition api_429_always :: "nat \<Rightarrow> outcome" where
  "api_429_always attempt = Raised ''Error code: 429 - Rate limit reached''"

definition invocation_log ::
  "(nat \<Rightarrow> outcome) \<Rightarrow> (nat \<Rightarrow> real) \<Rightarrow> int \<Rightarrow> world \<Rightarrow> event list"
where
  "invocation_log api jitter max_retries w
     = new_events w (snd (generate_content api jitter max_retries w))"

section \<open>modules/ai_client.py: clean_json_response and parse_json_response\<close>

text \<open>
  \<open>str.split(sep)\<close> for a non-empty separator: the pieces between the occurrences of
  \<open>sep\<close>, found from the left without overlap. \<open>cur\<close> is the piece being read.
\<close>

function split_on :: "string \<Rightarrow> string \<Rightarrow> string \<Rightarrow> string list" where
  "split_on sep cur [] = [cur]"
| "split_on sep cur (c # cs) =
     (if sep \<noteq> [] \<and> prefix sep (c # cs)
      then cur # split_on sep [] (drop (length sep) (c # cs))
      else split_on sep (cur @ [c]) cs)"
  by pat_completeness auto
termination
  by (relation "measure (\<lambda>(sep, cur, s). length s)") auto

definition py_split :: "string \<Rightarrow> string \<Rightarrow> string list" where
  "py_split sep s = split_on sep [] s"

text \<open>
  \<open>str.strip()\<close> removes the code points that \<open>str.isspace\<close> accepts. Below 256
  they are tab, line feed, vertical tab, form feed, carriage return, the four separators
  0x1C to 0x1F, space, next line 0x85 and no-break space 0xA0.
\<close>

definition is_space :: "char \<Rightarrow> bool" where
  "is_space c = (c \<in> set [CHR 0x09, CHR 0x0A, CHR 0x0B, CHR 0x0C, CHR 0x0D,
                            CHR 0x1C, CHR 0x1D, CHR 0x1E, CHR 0x1F, CHR 0x20,
                            CHR 0x85, CHR 0xA0])"

definition py_strip :: "string \<Rightarrow> string" where
  "py_strip s = rev (dropWhile is_space (rev (dropWhile is_space s)))"

text \<open>\<open>str.find(c)\<close> and \<open>str.rfind(c)\<close> for one character: the index, or \<open>-1\<close>.\<close>

fun py_find :: "char \<Rightarrow> string \<Rightarrow> int" where
  "py_find c [] = - 1"
| "py_find c (x # xs) =
     (if x = c then 0 else (let r = py_find c xs in if r = - 1 then - 1 else r + 1))"

definition py_rfind :: "char \<Rightarrow> string \<Rightarrow> int" where
  "py_rfind c s =
     (let r = py_find c (rev s) in if r = - 1 then - 1 else int (length s) - 1 - r)"

text \<open>\<open>text[start:end]\<close> for \<open>0 \<le> start\<close> and \<open>0 \<le> end\<close>.\<close>

definition py_slice :: "string \<Rightarrow> int \<Rightarrow> int \<Rightarrow> string" where
  "py_slice s start end = take (nat (end - start)) (drop (nat start) s)"

datatype py_error = TypeError | IndexError | KeyError string | ValueError | RecursionError

text \<open>
  \<open>parts[1]\<close> raises IndexError on a list of fewer than two elements. The two places
  that index are guarded by an \<open>in\<close> test or a length test, so it does not arise.
\<close>

definition second :: "string list \<Rightarrow> py_error + string" where
  "second parts = (case parts of a # b # rest \<Rightarrow> Inr b | _ \<Rightarrow> Inl IndexError)"

definition first :: "string list \<Rightarrow> py_error + string" where
  "first parts = (case parts of a # rest \<Rightarrow> Inr a | _ \<Rightarrow> Inl IndexError)"

text \<open>Remove markdown code blocks (source lines 164 to 171).\<close>

definition remove_code_fence :: "string \<Rightarrow> py_error + string" where
  "remove_code_fence text =
     (if sublist ''```json'' text then
        (case second (py_split ''```json'' text) of
           Inl e \<Rightarrow> Inl e
         | Inr inner \<Rightarrow> first (py_split ''```'' inner))
      else if sublist ''```'' text then
        (let parts = py_split ''```'' text in
         if length parts \<ge> 3 then second parts
         else if length parts = 2 then second parts
         else Inr text)
      else Inr text)"

definition clean_json_response :: "string \<Rightarrow> py_error + string" where
  "clean_json_response text =
     (if text = [] then Inr text
      else
        (case remove_code_fence text of
           Inl e \<Rightarrow> Inl e
         | Inr fenced \<Rightarrow>
             (let stripped = py_strip fenced in
              if prefix ''json'' stripped then Inr (py_strip (drop 4 stripped))
              else Inr stripped)))"

text \<open>
  What \<open>json.loads\<close> returns: a Python value. JSON \<open>null\<close> is Python's \<open>None\<close>, which
  is also what \<open>parse_json_response\<close> returns when it gives up; both are \<open>JNull\<close>.
\<close>

datatype json =
    JNull
  | JBool bool
  | JNumber real
  | JString string
  | JArray "json list"
  | JObject "(string \<times> json) list"

text \<open>
  \<open>json.loads\<close> belongs to the Python library and is a parameter of the model. On a
  string it returns a value, raises JSONDecodeError, or raises another exception
  (RecursionError on a text nested too deep, ValueError on an integer literal of more
  digits than the interpreter converts).
\<close>

datatype loads_result = Parsed json | DecodeError | OtherError py_error

text \<open>
  The argument \<open>text\<close> is the return value of \<open>generate_content\<close>, a string or
  \<open>None\<close>; on \<open>None\<close> the sanitizer returns \<open>None\<close> and \<open>json.loads(None)\<close> raises
  TypeError. The handler of the strict pass catches JSONDecodeError only, so every other
  exception of the strict pass reaches the caller; the bare \<open>except\<close> of the recovery
  pass catches every exception.
\<close>

definition parse_json_response ::
  "(string \<Rightarrow> loads_result) \<Rightarrow> string option \<Rightarrow> py_error + json"
where
  "parse_json_response json_loads text =
     (case text of
        None \<Rightarrow> Inl TypeError
      | Some t \<Rightarrow>
          (case clean_json_response t of
             Inl e \<Rightarrow> Inl e
           | Inr cleaned_text \<Rightarrow>
               (case json_loads cleaned_text of
                  Parsed v \<Rightarrow> Inr v
                | OtherError e \<Rightarrow> Inl e
                | DecodeError \<Rightarrow>
                    (let start = py_find CHR ''{'' t;
                         end = py_rfind CHR ''}'' t + 1 in
                     if start \<noteq> - 1 \<and> end > start then
                       (case json_loads (py_slice t start end) of
                          Parsed v \<Rightarrow> Inr v
                        | DecodeError \<Rightarrow> Inr JNull
                        | OtherError e \<Rightarrow> Inr JNull)
                     else Inr JNull))))"

text \<open>A text of a thousand opening brackets, nested deeper than the interpreter recurses.\<close>

definition deep_brackets :: string where
  "deep_brackets = replicate 1000 CHR ''[''"

text \<open>
  A stand-in for \<open>json.loads\<close> on the few texts of the examples below: it knows two
  JSON texts and the text of a thousand brackets, and rejects every other string as
  malformed. It is only ever applied to these three texts and to strings that are not
  JSON.
\<close>

definition json_loads_known :: "string \<Rightarrow> loads_result" where
  "json_loads_known s =
     (if s = ''{}'' then Parsed (JObject [])
      else if s = ''null'' then Parsed JNull
      else if s = deep_brackets then OtherError RecursionError
      else DecodeError)"

section \<open>Python floats\<close>

text \<open>
  Where a property depends on the exact value of a computed float (the weights of
  \<open>normalize_weights\<close>, the average of the critical scores), the arithmetic is modelled
  with the rounding written out. A float is the rational number it denotes.
  \<open>fl\<close> rounds a rational to the nearest IEEE 754 double (53 significant bits, ties to
  even), in the range of the normal numbers, which is the only one that weights and scores reach.
  Every float operation of Python is the exact operation followed by \<open>fl\<close>. An integer
  below \<open>2 ^ 53\<close> is its own double, and Python's \<open>int / int\<close> is the correctly
  rounded quotient, so integer weights need no case of their own.
\<close>

fun bit_length :: "nat \<Rightarrow> nat" where
  "bit_length n = (if n = 0 then 0 else Suc (bit_length (n div 2)))"

definition pow2 :: "int \<Rightarrow> rat" where
  "pow2 k = (if 0 \<le> k then 2 ^ nat k else 1 / 2 ^ nat (- k))"

text \<open>The integer \<open>e\<close> with \<open>2 ^ e \<le> a < 2 ^ (e + 1)\<close>, for \<open>a > 0\<close>.\<close>

definition ilog2 :: "rat \<Rightarrow> int" where
  "ilog2 a =
     (if 1 \<le> a then int (bit_length (nat \<lfloor>a\<rfloor>)) - 1
      else - int (bit_length (nat (\<lceil>1 / a\<rceil> - 1))))"

definition round_half_even :: "rat \<Rightarrow> int" where
  "round_half_even y =
     (let f = \<lfloor>y\<rfloor>; d = y - of_int f in
      if d < 1 / 2 then f
      else if d > 1 / 2 then f + 1
      else if even f then f else f + 1)"

definition fl :: "rat \<Rightarrow> rat" where
  "fl x =
     (if x = 0 then 0
      else
        (let a = \<bar>x\<bar>;
             u = pow2 (ilog2 a - 52);
             m = round_half_even (a / u)
         in sgn x * of_int m * u))"

text \<open>
  \<open>round(x, 2)\<close> on a float: the decimal with two places nearest to the exact value
  of \<open>x\<close> (ties to even), then the double nearest to that decimal.
\<close>

definition py_round2 :: "rat \<Rightarrow> rat" where
  "py_round2 x = fl (of_int (round_half_even (x * 100)) / 100)"

text \<open>
  \<open>sum(values)\<close>: starting from 0, one rounded addition per element from the left (the
  summation of CPython up to 3.11, the version the repository names in config.py).
\<close>

definition py_sum :: "rat list \<Rightarrow> rat" where
  "py_sum values = foldl (\<lambda>acc v. fl (acc + v)) 0 values"

section \<open>modules/evaluator.py: determine_candidate_tier\<close>

text \<open>
  A score is a Python float, the rational number it denotes. The score dictionary is a
  list of key and value pairs in insertion order; \<open>scores.get(key, 0)\<close> is
  \<open>score_get\<close>. The overall score is only compared with constants, which is exact, and
  is a real number. The rationale \<open>ai_reasoning\<close> is a string or \<open>None\<close>;
  \<open>if ai_reasoning:\<close> holds for a non-empty string only.
\<close>

datatype tier = VERY_LOW | LOW | MODERATE | BEST | TOP

type_synonym scores = "(string \<times> rat) list"

definition score_get :: "scores \<Rightarrow> string \<Rightarrow> rat" where
  "score_get scores key = (case map_of scores key of None \<Rightarrow> 0 | Some v \<Rightarrow> v)"

text \<open>Primary logic based on the overall score (source lines 190 to 199).\<close>

definition base_tier :: "real \<Rightarrow> tier" where
  "base_tier overall_score =
     (if overall_score \<ge> 80 then TOP
      else if overall_score \<ge> 60 then BEST
      else if overall_score \<ge> 40 then MODERATE
      else if overall_score \<ge> 20 then LOW
      else VERY_LOW)"

text \<open>
  Critical category safeguard (source lines 202 to 209). The average is computed in
  floats: the sum of the three scores from the left, then the division by their number.
\<close>

definition critical_avg :: "scores \<Rightarrow> rat" where
  "critical_avg scores =
     fl (py_sum (map (score_get scores) [''skills'', ''tools'', ''experience''])
         / of_nat (length [''skills'', ''tools'', ''experience'']))"

definition safeguard :: "scores \<Rightarrow> tier \<Rightarrow> tier" where
  "safeguard scores candidate_tier =
     (if critical_avg scores < 50 \<and> (candidate_tier = TOP \<or> candidate_tier = BEST) then MODERATE
      else if critical_avg scores < 30 \<and> candidate_tier = MODERATE then LOW
      else candidate_tier)"

text \<open>AI reasoning adjustment (source lines 212 to 227).\<close>

definition strong_positive :: "string \<Rightarrow> bool" where
  "strong_positive reasoning_lower =
     (sublist ''strong hire'' reasoning_lower \<or> sublist ''excellent fit'' reasoning_lower)"

definition strong_negative :: "string \<Rightarrow> bool" where
  "strong_negative reasoning_lower =
     (sublist ''not recommended'' reasoning_lower \<or> sublist ''poor fit'' reasoning_lower
      \<or> sublist ''limited alignment'' reasoning_lower)"

definition reasoning_adjustment :: "real \<Rightarrow> string option \<Rightarrow> tier \<Rightarrow> tier" where
  "reasoning_adjustment overall_score ai_reasoning candidate_tier =
     (case ai_reasoning of
        None \<Rightarrow> candidate_tier
      | Some text \<Rightarrow>
          if text = [] then candidate_tier
          else
            (let reasoning_lower = lower text in
             if strong_positive reasoning_lower then
               (if overall_score \<ge> 70 then TOP
                else if overall_score \<ge> 60 then BEST
                else candidate_tier)
             else if strong_negative reasoning_lower then
               (if overall_score < 50 then LOW else MODERATE)
             else candidate_tier))"

definition determine_candidate_tier :: "real \<Rightarrow> scores \<Rightarrow> string option \<Rightarrow> tier" where
  "determine_candidate_tier overall_score scores ai_reasoning =
     reasoning_adjustment overall_score ai_reasoning (safeguard scores (base_tier overall_score))"

text \<open>The five tiers are ordinal, worst to best.\<close>

fun tier_rank :: "tier \<Rightarrow> nat" where
  "tier_rank VERY_LOW = 0"
| "tier_rank LOW = 1"
| "tier_rank MODERATE = 2"
| "tier_rank BEST = 3"
| "tier_rank TOP = 4"

text \<open>A score map whose three critical categories all score \<open>c\<close>.\<close>

definition critical_scores :: "rat \<Rightarrow> scores" where
  "critical_scores c =
     [(''skills'', c), (''tools'', c), (''experience'', c), (''education'', 100),
      (''projects'', 100), (''certifications'', 100), (''profile_quality'', 100)]"

text \<open>
  The safeguard as the specification words it, one rule after the other: the second rule
  reads the tier that the first rule left.
\<close>

definition claimed_tier :: "real \<Rightarrow> rat \<Rightarrow> tier" where
  "claimed_tier overall average =
     (let base = base_tier overall;
          after_rule_1 =
            (if average < 50 \<and> (base = TOP \<or> base = BEST) then MODERATE else base)
      in if average < 30 \<and> after_rule_1 = MODERATE then LOW else after_rule_1)"

section \<open>modules/evaluator.py: rank_candidates\<close>

text \<open>
  An evaluation result is a dictionary; the model keeps the fields the ranking reads or
  writes and the scores it must leave alone. \<open>rank\<close> is \<open>None\<close> while the key is
  absent. Each element of the list is an object of its own, as the caller builds them.
  \<open>sorted(..., key=..., reverse=True)\<close> is a stable sort into descending order: on
  numbers it is the stable sort by the negated key, \<^const>\<open>sort_key\<close> being stable.
\<close>

record evaluation_result =
  candidate_name :: string
  overall_score :: real
  individual_scores :: scores
  candidate_tier :: tier
  rank :: "nat option"

definition rank_candidates :: "evaluation_result list \<Rightarrow> evaluation_result list" where
  "rank_candidates evaluation_results =
     (let sorted_results = sort_key (\<lambda>x. - overall_score x) evaluation_results in
      map (\<lambda>(rank, result). result\<lparr>rank := Some rank\<rparr>)
        (zip [1..<Suc (length sorted_results)] sorted_results))"

text \<open>A result with its rank erased, to compare results up to the rank.\<close>

definition unranked :: "evaluation_result \<Rightarrow> evaluation_result" where
  "unranked r = r\<lparr>rank := None\<rparr>"

definition candidate :: "string \<Rightarrow> real \<Rightarrow> evaluation_result" where
  "candidate name score =
     \<lparr>candidate_name = name, overall_score = score, individual_scores = [],
      candidate_tier = base_tier score, rank = None\<rparr>"

section \<open>modules/rubrics_generator.py: normalize_weights and validate_rubrics\<close>

text \<open>
  A weights dictionary is a list of key and value pairs in insertion order, with distinct
  keys.
\<close>

type_synonym weights = "(string \<times> rat) list"

definition DEFAULT_RUBRICS_WEIGHTS :: weights where
  "DEFAULT_RUBRICS_WEIGHTS =
     [(''skills'', 25), (''tools'', 25), (''experience'', 20), (''education'', 5),
      (''projects'', 15), (''certifications'', 5), (''profile_quality'', 5)]"

text \<open>
  \<open>max(d, key=d.get)\<close> on a non-empty dictionary: the first key whose value is the
  largest. \<open>best\<close> is the entry that leads so far.
\<close>

fun max_entry :: "'k \<times> 'v::linorder \<Rightarrow> ('k \<times> 'v) list \<Rightarrow> 'k \<times> 'v" where
  "max_entry best [] = best"
| "max_entry best (kv # rest) = max_entry (if snd kv > snd best then kv else best) rest"

definition normalize_weights :: "weights \<Rightarrow> weights" where
  "normalize_weights weights =
     (let total = py_sum (map snd weights) in
      if total = 0 then DEFAULT_RUBRICS_WEIGHTS
      else
        (let normalized = map (\<lambda>(key, value). (key, py_round2 (fl (fl (value / total) * 100)))) weights;
             diff = fl (100 - py_sum (map snd normalized))
         in if diff \<noteq> 0 then
              (case normalized of
                 [] \<Rightarrow> normalized
               | kv # rest \<Rightarrow>
                   (let max_key = fst (max_entry kv rest) in
                    map (\<lambda>(key, value). if key = max_key then (key, fl (value + diff)) else (key, value))
                      normalized))
            else normalized))"

text \<open>
  The messages that \<open>validate_rubrics\<close> returns beside the flag, by kind.
\<close>

datatype validation_message =
    Valid
  | MissingWeights
  | MissingWeightKey string
  | WeightsSumTo rat
  | NegativeWeight string rat

definition required_keys :: "string list" where
  "required_keys = [''skills'', ''tools'', ''experience'', ''education'',
                    ''projects'', ''certifications'', ''profile_quality'']"

text \<open>
  The argument is \<open>rubrics.get('weights')\<close>: \<open>None\<close> when the rubrics have no weights.
  The literal \<open>0.1\<close> is the double nearest to one tenth.
\<close>

definition validate_rubrics :: "weights option \<Rightarrow> bool \<times> validation_message" where
  "validate_rubrics rubrics_weights =
     (case rubrics_weights of
        None \<Rightarrow> (False, MissingWeights)
      | Some weights \<Rightarrow>
          (case List.find (\<lambda>key. key \<notin> set (map fst weights)) required_keys of
             Some key \<Rightarrow> (False, MissingWeightKey key)
           | None \<Rightarrow>
               (let total = py_sum (map snd weights) in
                if \<bar>fl (total - 100)\<bar> > fl (1 / 10) then (False, WeightsSumTo total)
                else
                  (case List.find (\<lambda>(key, value). value < 0) weights of
                     Some (key, value) \<Rightarrow> (False, NegativeWeight key value)
                   | None \<Rightarrow> (True, Valid)))))"

text \<open>
  The check of \<open>generate_rubrics_from_jd\<close> on the weights that the service returned
  (source lines 143 to 147).
\<close>

definition generated_weights :: "weights \<Rightarrow> weights" where
  "generated_weights weights =
     (let total_weight = py_sum (map snd weights) in
      if \<bar>fl (total_weight - 100)\<bar> > fl (1 / 10) then normalize_weights weights
      else weights)"

text \<open>Weights over the seven categories, in the order of the rubric.\<close>

definition rubric_weights :: "rat list \<Rightarrow> weights" where
  "rubric_weights values = zip required_keys values"


text \<open>A rubric whose seven weights are all zero.\<close>

definition zero_weights :: weights where
  "zero_weights = rubric_weights [0, 0, 0, 0, 0, 0, 0]"

section \<open>modules/evaluator.py: generate_fallback_reasoning\<close>

text \<open>
  The format \<open>{x:.1f}\<close>: the sign, the integer digits, a point and one decimal digit,
  of the value rounded to one decimal place, ties to even. The argument is the number that
  the float denotes, which is the number that Python rounds.
\<close>

definition round_half_even_real :: "real \<Rightarrow> int" where
  "round_half_even_real y =
     (let f = \<lfloor>y\<rfloor>; d = y - of_int f in
      if d < 1 / 2 then f
      else if d > 1 / 2 then f + 1
      else if even f then f else f + 1)"

definition digit_char :: "nat \<Rightarrow> char" where
  "digit_char d = ''0123456789'' ! d"

fun show_nat :: "nat \<Rightarrow> string" where
  "show_nat n = (if n < 10 then [digit_char n] else show_nat (n div 10) @ [digit_char (n mod 10)])"

declare show_nat.simps [simp del]

definition format_1f :: "real \<Rightarrow> string" where
  "format_1f x =
     (let n = nat (round_half_even_real (\<bar>x\<bar> * 10)) in
      (if x < 0 then ''-'' else []) @ show_nat (n div 10) @ ''.'' @ [digit_char (n mod 10)])"

text \<open>\<open>s.replace('_', ' ')\<close> and \<open>sep.join(names)\<close>.\<close>

definition replace_underscore :: "string \<Rightarrow> string" where
  "replace_underscore s = map (\<lambda>c. if c = CHR ''_'' then CHR '' '' else c) s"

fun join_with :: "string \<Rightarrow> string list \<Rightarrow> string" where
  "join_with sep [] = []"
| "join_with sep [x] = x"
| "join_with sep (x # y # ys) = x @ sep @ join_with sep (y # ys)"

text \<open>The constant pieces of the three f-strings (source lines 170, 174 and 179).\<close>

definition strong_text_1 :: string where
  "strong_text_1 =
     ''This candidate demonstrates strong alignment with the role ''
     @ ''requirements, achieving an overall match score of ''"

definition strong_text_2 :: string where
  "strong_text_2 =
     ''%. The candidate shows particularly strong performance in key ''
     @ ''evaluation areas, with solid technical skills (''"

definition strong_text_3 :: string where
  "strong_text_3 =
     ''%) and relevant experience (''"

definition strong_text_4 :: string where
  "strong_text_4 =
     ''%). The profile suggests a well-rounded professional with the ''
     @ ''necessary competencies to excel in this position. Recommendation: ''
     @ ''Strong candidate for further consideration and interview.''"

definition moderate_text_1 :: string where
  "moderate_text_1 =
     ''This candidate shows moderate alignment with the role requirements, ''
     @ ''achieving an overall match score of ''"

definition moderate_text_2 :: string where
  "moderate_text_2 =
     ''%. While there are some areas of strength, particularly in ''"

definition moderate_text_3 :: string where
  "moderate_text_3 =
     '' (''"

definition moderate_text_4 :: string where
  "moderate_text_4 =
     ''%), there are also notable gaps in other critical areas. The ''
     @ ''candidate may require additional assessment to determine if they can ''
     @ ''bridge these gaps through training or on-the-job learning. ''
     @ ''Recommendation: Consider for interview with focus on addressing ''
     @ ''identified gaps.''"

definition limited_text_1 :: string where
  "limited_text_1 =
     ''This candidate shows limited alignment with the role requirements, ''
     @ ''achieving an overall match score of ''"

definition limited_text_2 :: string where
  "limited_text_2 =
     ''%. Significant gaps exist in multiple critical areas including ''"

definition limited_text_3 :: string where
  "limited_text_3 =
     ''. These gaps suggest the candidate may not currently possess the ''
     @ ''necessary foundation for success in this role. Recommendation: Not ''
     @ ''recommended for this position at this time; consider for alternative ''
     @ ''roles or future opportunities after skill development.''"

text \<open>The text of the last branch, for the formatted score and the names of the weak areas.\<close>

definition limited_text :: "string \<Rightarrow> string \<Rightarrow> string" where
  "limited_text score weak_names =
     limited_text_1 @ score @ limited_text_2 @ weak_names @ limited_text_3"

definition weak_names :: "scores \<Rightarrow> string" where
  "weak_names scores =
     (let weak_areas = take 3 (sort_key snd scores) in
      join_with '', '' (map (\<lambda>(k, v). replace_underscore k) weak_areas))"

text \<open>
  \<open>scores['skills']\<close> raises KeyError for a missing key, and \<open>max\<close> raises
  ValueError on an empty dictionary; both are branches of the model.
\<close>

definition generate_fallback_reasoning :: "real \<Rightarrow> scores \<Rightarrow> py_error + string" where
  "generate_fallback_reasoning overall scores =
     (if overall \<ge> 75 then
        (case map_of scores ''skills'' of
           None \<Rightarrow> Inl (KeyError ''skills'')
         | Some skills \<Rightarrow>
             (case map_of scores ''experience'' of
                None \<Rightarrow> Inl (KeyError ''experience'')
              | Some experience \<Rightarrow>
                  Inr (strong_text_1 @ format_1f overall @ strong_text_2
                       @ format_1f (of_rat skills) @ strong_text_3 @ format_1f (of_rat experience)
                       @ strong_text_4)))
      else if overall \<ge> 55 then
        (case scores of
           [] \<Rightarrow> Inl ValueError
         | kv # rest \<Rightarrow>
             (let best = max_entry kv rest; best_category = fst best in
              Inr (moderate_text_1 @ format_1f overall @ moderate_text_2
                   @ replace_underscore best_category @ moderate_text_3
                   @ format_1f (of_rat (snd best)) @ moderate_text_4)))
      else Inr (limited_text (format_1f overall) (weak_names scores)))"

text \<open>
  \<open>generate_ai_reasoning\<close> when the external call yields no response or raises: the
  rationale is the fallback text.
\<close>

definition tier_with_fallback :: "real \<Rightarrow> scores \<Rightarrow> py_error + tier" where
  "tier_with_fallback overall scores =
     (case generate_fallback_reasoning overall scores of
        Inl e \<Rightarrow> Inl e
      | Inr ai_reasoning \<Rightarrow>
          Inr (determine_candidate_tier overall scores (Some ai_reasoning)))"

text \<open>The seven categories with the scores of one evaluation, in the order of the code.\<close>

definition category_scores :: "rat list \<Rightarrow> scores" where
  "category_scores values = zip required_keys values"

section \<open>Properties of the call budget\<close>

lemma sleep_fields [simp]:
  "api_call_count (sleep d w) = api_call_count w"
  "minute_start_time (sleep d w) = minute_start_time w"
  "last_api_call_time (sleep d w) = last_api_call_time w"
  "clock (sleep d w) = clock w + d"
  by (simp_all add: sleep_def)

lemma min_delay_check_fields [simp]:
  "api_call_count (min_delay_check w) = api_call_count w"
  "minute_start_time (min_delay_check w) = minute_start_time w"
  "last_api_call_time (min_delay_check w) = last_api_call_time w"
  by (simp_all add: min_delay_check_def Let_def)

lemma min_delay_check_clock: "clock w \<le> clock (min_delay_check w)"
  by (simp add: min_delay_check_def Let_def)

lemma reset_minute_counter_window:
  "clock (reset_minute_counter w) = clock w"
  "api_call_count (reset_minute_counter w) = 0
     \<or> clock w - minute_start_time (reset_minute_counter w) < 60"
  by (simp_all add: reset_minute_counter_def Let_def)

lemma count_after_checks:
  "api_call_count (minute_limit_check (reset_minute_counter w)) < CALLS_PER_MINUTE_LIMIT"
  by (simp add: minute_limit_check_def reset_minute_counter_def Let_def
      CALLS_PER_MINUTE_LIMIT_def)

lemma wait_for_rate_limit_count:
  "api_call_count (wait_for_rate_limit w)
     = api_call_count (minute_limit_check (reset_minute_counter w)) + 1"
  by (simp add: wait_for_rate_limit_def Let_def)

lemma acquire_all_snoc:
  "acquire_all w (gs @ [g])
     = wait_for_rate_limit ((acquire_all w gs)\<lparr>clock := clock (acquire_all w gs) + g\<rparr>)"
  by (induction gs arbitrary: w) simp_all

text \<open>
  Claim C2. After every acquire the calls-issued-in-window counter is at most
  \<open>CALLS_PER_MINUTE_LIMIT\<close>, from any prior state of the tracker and for any schedule of
  acquires. While the window is open and the counter is below the limit, the grant is
  counted. When the counter has reached the limit inside the window, the caller sleeps
  for the rest of the window plus two seconds, so that it returns after the window has
  rolled over, with a new window started there and this grant as its first. When 60
  seconds have passed since the window start, the counter is reset to zero and the window
  starts at the current time. The clock is the simulated one: it moves in
  \<open>time.sleep\<close> only.
\<close>

theorem call_budget_within_limit:
  "api_call_count (wait_for_rate_limit w) \<le> CALLS_PER_MINUTE_LIMIT
   \<and> api_call_count (acquire_all w (gs @ [g])) \<le> CALLS_PER_MINUTE_LIMIT
   \<and> (api_call_count w < CALLS_PER_MINUTE_LIMIT \<and> clock w - minute_start_time w < 60
        \<longrightarrow> api_call_count (wait_for_rate_limit w) = api_call_count w + 1
          \<and> minute_start_time (wait_for_rate_limit w) = minute_start_time w)
   \<and> (CALLS_PER_MINUTE_LIMIT \<le> api_call_count w \<and> clock w - minute_start_time w < 60
        \<longrightarrow> Sleep (60 - (clock w - minute_start_time w) + 2) \<in> set (events (wait_for_rate_limit w))
          \<and> minute_start_time w + 60 \<le> clock (wait_for_rate_limit w)
          \<and> minute_start_time (wait_for_rate_limit w) = minute_start_time w + 62
          \<and> api_call_count (wait_for_rate_limit w) = 1)
   \<and> (60 \<le> clock w - minute_start_time w
        \<longrightarrow> api_call_count (reset_minute_counter w) = 0
          \<and> minute_start_time (reset_minute_counter w) = clock w
          \<and> minute_start_time (wait_for_rate_limit w) = clock w
          \<and> api_call_count (wait_for_rate_limit w) = 1)"
proof -
  have le: "api_call_count (wait_for_rate_limit v) \<le> CALLS_PER_MINUTE_LIMIT" for v
    using count_after_checks [of v] unfolding wait_for_rate_limit_count by linarith
  have sched: "api_call_count (acquire_all w (gs @ [g])) \<le> CALLS_PER_MINUTE_LIMIT"
    by (simp only: acquire_all_snoc le)
  have counted: "api_call_count w < CALLS_PER_MINUTE_LIMIT \<and> clock w - minute_start_time w < 60
      \<longrightarrow> api_call_count (wait_for_rate_limit w) = api_call_count w + 1
        \<and> minute_start_time (wait_for_rate_limit w) = minute_start_time w"
    by (simp add: wait_for_rate_limit_def minute_limit_check_def
        reset_minute_counter_def Let_def)
  have blocked: "CALLS_PER_MINUTE_LIMIT \<le> api_call_count w \<and> clock w - minute_start_time w < 60
      \<longrightarrow> Sleep (60 - (clock w - minute_start_time w) + 2) \<in> set (events (wait_for_rate_limit w))
        \<and> minute_start_time w + 60 \<le> clock (wait_for_rate_limit w)
        \<and> minute_start_time (wait_for_rate_limit w) = minute_start_time w + 62
        \<and> api_call_count (wait_for_rate_limit w) = 1"
    by (simp add: wait_for_rate_limit_def minute_limit_check_def min_delay_check_def
        reset_minute_counter_def sleep_def Let_def MIN_DELAY_BETWEEN_CALLS_def)
  have rolled: "60 \<le> clock w - minute_start_time w
      \<longrightarrow> api_call_count (reset_minute_counter w) = 0
        \<and> minute_start_time (reset_minute_counter w) = clock w
        \<and> minute_start_time (wait_for_rate_limit w) = clock w
        \<and> api_call_count (wait_for_rate_limit w) = 1"
    by (simp add: wait_for_rate_limit_def minute_limit_check_def
        reset_minute_counter_def Let_def CALLS_PER_MINUTE_LIMIT_def)
  from le sched counted blocked rolled show ?thesis
    by blast
qed

theorem call_budget_within_limit_witness:
  "api_call_count w_open < CALLS_PER_MINUTE_LIMIT
   \<and> clock w_open - minute_start_time w_open < 60
   \<and> api_call_count (wait_for_rate_limit w_open) = 8
   \<and> CALLS_PER_MINUTE_LIMIT \<le> api_call_count w_full
   \<and> clock w_full - minute_start_time w_full < 60
   \<and> Sleep 32 \<in> set (events (wait_for_rate_limit w_full))
   \<and> 60 \<le> clock (wait_for_rate_limit w_full)
   \<and> api_call_count (wait_for_rate_limit w_full) = 1
   \<and> 60 \<le> clock w_late - minute_start_time w_late
   \<and> minute_start_time (wait_for_rate_limit w_late) = 75
   \<and> api_call_count (wait_for_rate_limit w_late) = 1"
  using call_budget_within_limit [of w_open "[]" 0]
    call_budget_within_limit [of w_full "[]" 0]
    call_budget_within_limit [of w_late "[]" 0]
  by (simp add: w_open_def w_full_def w_late_def CALLS_PER_MINUTE_LIMIT_def)

section \<open>Properties of generate_content\<close>

lemma acquires_and_calls_append [simp]:
  "acquires_and_calls (xs @ ys) = acquires_and_calls xs @ acquires_and_calls ys"
  by (simp add: acquires_and_calls_def)

lemma acquires_and_calls_simps [simp]:
  "acquires_and_calls [] = []"
  "acquires_and_calls (Acquire # es) = Acquire # acquires_and_calls es"
  "acquires_and_calls (ApiCall k # es) = ApiCall k # acquires_and_calls es"
  "acquires_and_calls (Sleep d # es) = acquires_and_calls es"
  "acquires_and_calls (ResetWindow # es) = acquires_and_calls es"
  by (simp_all add: acquires_and_calls_def)

lemma rate_limit_backoff_fields [simp]:
  "events (rate_limit_backoff j a w)
     = events w @ [Sleep (INITIAL_RETRY_DELAY * 2 ^ a + j a), ResetWindow]"
  "api_call_count (rate_limit_backoff j a w) = 0"
  "clock (rate_limit_backoff j a w) = clock w + (INITIAL_RETRY_DELAY * 2 ^ a + j a)"
  "minute_start_time (rate_limit_backoff j a w) = clock w + (INITIAL_RETRY_DELAY * 2 ^ a + j a)"
  "last_api_call_time (rate_limit_backoff j a w) = last_api_call_time w"
  by (simp_all add: rate_limit_backoff_def sleep_def Let_def)

lemma timeout_backoff_fields [simp]:
  "events (timeout_backoff a w) = events w @ [Sleep (10 * (real a + 1))]"
  "api_call_count (timeout_backoff a w) = api_call_count w"
  "minute_start_time (timeout_backoff a w) = minute_start_time w"
  by (simp_all add: timeout_backoff_def sleep_def Let_def)

lemma retry_loop_step:
  "events (snd (retry_loop api j mr (a # rest) w)) = events w @ [ApiCall a]
   \<or> (\<exists>w' mid. retry_loop api j mr (a # rest) w = retry_loop api j mr rest w'
         \<and> events w' = events w @ ApiCall a # mid \<and> acquires_and_calls mid = [])"
  by (auto simp: Let_def split: outcome.splits)

lemma retry_loop_log:
  "\<exists>n evs. n \<le> length as
     \<and> events (snd (retry_loop api j mr as w)) = events w @ evs
     \<and> acquires_and_calls evs = map ApiCall (take n as)"
proof (induction as arbitrary: w)
  case Nil
  show ?case by (rule exI [of _ 0], rule exI [of _ "[]"]) simp
next
  case (Cons a rest)
  consider (stop) "events (snd (retry_loop api j mr (a # rest) w)) = events w @ [ApiCall a]"
    | (continue) w' mid where "retry_loop api j mr (a # rest) w = retry_loop api j mr rest w'"
        "events w' = events w @ ApiCall a # mid" "acquires_and_calls mid = []"
    using retry_loop_step [of api j mr a rest w] by blast
  then show ?case
  proof cases
    case stop
    then show ?thesis
      by (intro exI [of _ "Suc 0"] exI [of _ "[ApiCall a]"]) simp
  next
    case continue
    from Cons.IH [of w'] obtain n evs where n: "n \<le> length rest"
      and ev: "events (snd (retry_loop api j mr rest w')) = events w' @ evs"
      and ac: "acquires_and_calls evs = map ApiCall (take n rest)"
      by blast
    show ?thesis
      using n ev ac continue
      by (intro exI [of _ "Suc n"] exI [of _ "ApiCall a # mid @ evs"]) simp
  qed
qed

lemma wait_for_rate_limit_log:
  "\<exists>pre. events (wait_for_rate_limit w) = events w @ pre @ [Acquire]
     \<and> acquires_and_calls pre = []"
  by (simp add: wait_for_rate_limit_def reset_minute_counter_def minute_limit_check_def
      min_delay_check_def sleep_def Let_def)

lemma attempts_made_calls: "attempts_made (map ApiCall ks) = length ks"
  by (induction ks) (simp_all add: attempts_made_def)

lemma attempts_made_acquires_and_calls:
  "attempts_made (acquires_and_calls evs) = attempts_made evs"
  by (induction evs) (auto simp: attempts_made_def acquires_and_calls_def)

lemma count_acquires_and_calls:
  "count_list (acquires_and_calls evs) Acquire = count_list evs Acquire"
  by (induction evs) (auto simp: acquires_and_calls_def)

lemma count_calls: "count_list (map ApiCall ks) Acquire = 0"
  by (induction ks) simp_all

lemma no_call_in_quiet: "acquires_and_calls mid = [] \<Longrightarrow> ApiCall k \<notin> set mid"
  by (induction mid) (auto simp: acquires_and_calls_def split: if_splits)

lemma attempts_made_append [simp]:
  "attempts_made (xs @ ys) = attempts_made xs + attempts_made ys"
  by (simp add: attempts_made_def)

lemma attempts_made_quiet: "acquires_and_calls mid = [] \<Longrightarrow> attempts_made mid = 0"
  using attempts_made_acquires_and_calls [of mid] by (simp add: attempts_made_def)

lemma retry_loop_extends:
  "\<exists>evs. events (snd (retry_loop api j mr as w)) = events w @ evs"
  using retry_loop_log [of as api j mr w] by blast

lemma retry_loop_first_event:
  "\<exists>evs. events (snd (retry_loop api j mr (b # r) w)) = events w @ ApiCall b # evs"
  using retry_loop_step [of api j mr b r w] retry_loop_extends [of api j mr r]
  by (metis append.assoc append_Cons append_Nil)

lemma upt_Cons_dest: "x # rest = [a..<m] \<Longrightarrow> a < m \<and> x = a \<and> rest = [Suc a..<m]"
  using upt_eq_Cons_conv [of a m x rest] by auto

lemma retry_loop_exhausted:
  "as = [a..<nat mr] \<Longrightarrow> fst (retry_loop api j mr as w) = Inl (RateLimitExceeded n)
   \<Longrightarrow> n = mr \<and> (\<exists>evs. events (snd (retry_loop api j mr as w)) = events w @ evs
                    \<and> attempts_made evs = length as)"
proof (induction as arbitrary: a w)
  case Nil
  then show ?case by simp
next
  case (Cons x rest)
  from upt_Cons_dest [OF Cons.prems(1)]
  have a: "a < nat mr" and x: "x = a" and rest: "rest = [Suc a..<nat mr]"
    by simp_all
  show ?case
  proof (cases "api a")
    case (Returned r)
    with Cons.prems(2) x show ?thesis by simp
  next
    case (Raised e)
    let ?w1 = "w\<lparr>events := events w @ [ApiCall a]\<rparr>"
    consider (rl_retry) "is_rate_limit (lower e)" "int a < mr - 1"
      | (rl_stop) "is_rate_limit (lower e)" "\<not> int a < mr - 1"
      | (to_retry) "\<not> is_rate_limit (lower e)" "sublist ''timeout'' (lower e)" "int a < mr - 1"
      | (other) "\<not> is_rate_limit (lower e)" "\<not> (sublist ''timeout'' (lower e) \<and> int a < mr - 1)"
      by blast
    then show ?thesis
    proof cases
      case rl_retry
      let ?w' = "rate_limit_backoff j a ?w1"
      have eq: "retry_loop api j mr (x # rest) w = retry_loop api j mr rest ?w'"
        using Raised rl_retry x by simp
      from Cons.IH [OF rest, of ?w'] Cons.prems(2) eq
      obtain evs where "n = mr" "events (snd (retry_loop api j mr rest ?w')) = events ?w' @ evs"
        "attempts_made evs = length rest"
        by auto
      then show ?thesis
        unfolding eq
        by (intro conjI exI [of _ "[ApiCall a, Sleep (INITIAL_RETRY_DELAY * 2 ^ a + j a), ResetWindow] @ evs"])
           (simp_all add: attempts_made_def)
    next
      case rl_stop
      with a have "rest = []" unfolding rest by simp
      with Raised rl_stop x Cons.prems(2) show ?thesis
        by (simp add: attempts_made_def)
    next
      case to_retry
      let ?w' = "timeout_backoff a ?w1"
      have eq: "retry_loop api j mr (x # rest) w = retry_loop api j mr rest ?w'"
        using Raised to_retry x by simp
      from Cons.IH [OF rest, of ?w'] Cons.prems(2) eq
      obtain evs where "n = mr" "events (snd (retry_loop api j mr rest ?w')) = events ?w' @ evs"
        "attempts_made evs = length rest"
        by auto
      then show ?thesis
        unfolding eq
        by (intro conjI exI [of _ "[ApiCall a, Sleep (10 * (real a + 1))] @ evs"])
           (simp_all add: attempts_made_def)
    next
      case other
      with Raised x Cons.prems(2) show ?thesis
        by (auto simp: Let_def split: if_splits)
    qed
  qed
qed

lemma retry_loop_backoff:
  "as = [a..<nat mr] \<Longrightarrow> events (snd (retry_loop api j mr as w)) = events w @ evs
   \<Longrightarrow> ApiCall k \<in> set evs \<Longrightarrow> api k = Raised e \<Longrightarrow> is_rate_limit (lower e)
   \<Longrightarrow> int k < mr - 1
   \<Longrightarrow> sublist [ApiCall k, Sleep (INITIAL_RETRY_DELAY * 2 ^ k + j k), ResetWindow, ApiCall (Suc k)] evs"
proof (induction as arbitrary: a w evs)
  case Nil
  then show ?case by simp
next
  case (Cons x rest)
  from upt_Cons_dest [OF Cons.prems(1)]
  have a: "a < nat mr" and x: "x = a" and rest: "rest = [Suc a..<nat mr]"
    by simp_all
  let ?w1 = "w\<lparr>events := events w @ [ApiCall a]\<rparr>"
  show ?case
  proof (cases "k = a")
    case True
    let ?w' = "rate_limit_backoff j a ?w1"
    have eq: "retry_loop api j mr (x # rest) w = retry_loop api j mr rest ?w'"
      using Cons.prems(4,5,6) True x by simp
    from Cons.prems(6) True have "Suc a < nat mr" by linarith
    then have rest': "rest = Suc a # [Suc (Suc a)..<nat mr]"
      unfolding rest by (simp add: upt_conv_Cons)
    obtain tl where "events (snd (retry_loop api j mr rest ?w')) = events ?w' @ ApiCall (Suc a) # tl"
      using retry_loop_first_event [of api j mr "Suc a" "[Suc (Suc a)..<nat mr]" ?w'] rest'
      by auto
    with Cons.prems(2) eq have
      "evs = [ApiCall a, Sleep (INITIAL_RETRY_DELAY * 2 ^ a + j a), ResetWindow, ApiCall (Suc a)] @ tl"
      by simp
    with True show ?thesis
      by (metis sublist_append_rightI)
  next
    case False
    consider (stop) "events (snd (retry_loop api j mr (a # rest) w)) = events w @ [ApiCall a]"
      | (continue) w' mid where "retry_loop api j mr (a # rest) w = retry_loop api j mr rest w'"
          "events w' = events w @ ApiCall a # mid" "acquires_and_calls mid = []"
      using retry_loop_step [of api j mr a rest w] by blast
    then show ?thesis
    proof cases
      case stop
      with Cons.prems(2,3) x False show ?thesis by simp
    next
      case continue
      obtain evs' where evs': "events (snd (retry_loop api j mr rest w')) = events w' @ evs'"
        using retry_loop_extends by blast
      with continue Cons.prems(2) x have split: "evs = (ApiCall a # mid) @ evs'"
        by simp
      with Cons.prems(3) False no_call_in_quiet [OF continue(3)] have "ApiCall k \<in> set evs'"
        by auto
      from Cons.IH [OF rest evs' this Cons.prems(4,5,6)]
      show ?thesis
        unfolding split by (metis sublist_append sublist_order.order.trans sublist_append_leftI)
    qed
  qed
qed


lemma retry_loop_all_rate_limited:
  "as = [a..<nat mr] \<Longrightarrow> as \<noteq> []
   \<Longrightarrow> (\<forall>i<nat mr. \<exists>e. api i = Raised e \<and> is_rate_limit (lower e))
   \<Longrightarrow> fst (retry_loop api j mr as w) = Inl (RateLimitExceeded mr)"
proof (induction as arbitrary: a w)
  case Nil
  then show ?case by simp
next
  case (Cons x rest)
  from upt_Cons_dest [OF Cons.prems(1)]
  have a: "a < nat mr" and x: "x = a" and rest: "rest = [Suc a..<nat mr]"
    by simp_all
  from Cons.prems(3) a obtain e where e: "api a = Raised e" "is_rate_limit (lower e)"
    by blast
  show ?case
  proof (cases "int a < mr - 1")
    case True
    then have "rest \<noteq> []" unfolding rest by simp
    from Cons.IH [OF rest this Cons.prems(3)] e True x show ?thesis
      by simp
  next
    case False
    with e x show ?thesis by simp
  qed
qed

lemma invocation_log_split:
  "\<exists>n pre evs. n \<le> nat mr
     \<and> invocation_log api j mr w = pre @ [Acquire] @ evs
     \<and> events (snd (retry_loop api j mr [0..<nat mr] (wait_for_rate_limit w)))
         = events (wait_for_rate_limit w) @ evs
     \<and> acquires_and_calls pre = []
     \<and> acquires_and_calls evs = map ApiCall [0..<n]"
proof -
  obtain pre where pre: "events (wait_for_rate_limit w) = events w @ pre @ [Acquire]"
    "acquires_and_calls pre = []"
    using wait_for_rate_limit_log by blast
  obtain n evs where n: "n \<le> length [0..<nat mr]"
    and ev: "events (snd (retry_loop api j mr [0..<nat mr] (wait_for_rate_limit w)))
       = events (wait_for_rate_limit w) @ evs"
    and ac: "acquires_and_calls evs = map ApiCall (take n [0..<nat mr])"
    using retry_loop_log by blast
  from n have "take n [0..<nat mr] = [0..<n]" by (simp add: take_upt)
  with n ev ac pre show ?thesis
    by (intro exI [of _ n] exI [of _ pre] exI [of _ evs])
       (simp add: invocation_log_def new_events_def generate_content_def)
qed

lemma invocation_attempts:
  "attempts_made (invocation_log api j mr w) \<le> nat mr"
proof -
  obtain n pre evs where n: "n \<le> nat mr"
    and split: "invocation_log api j mr w = pre @ [Acquire] @ evs"
    and pre: "acquires_and_calls pre = []"
    and ac: "acquires_and_calls evs = map ApiCall [0..<n]"
    using invocation_log_split by blast
  have "attempts_made evs = n"
    using attempts_made_acquires_and_calls [of evs] by (simp add: ac attempts_made_calls)
  with n show ?thesis
    by (simp add: split attempts_made_quiet [OF pre]) (simp add: attempts_made_def)
qed

lemma invocation_backoff:
  assumes "ApiCall k \<in> set (invocation_log api j mr w)" "api k = Raised e"
    "is_rate_limit (lower e)" "int k < mr - 1"
  shows "sublist [ApiCall k, Sleep (INITIAL_RETRY_DELAY * 2 ^ k + j k), ResetWindow, ApiCall (Suc k)]
     (invocation_log api j mr w)"
proof -
  obtain n pre evs where split: "invocation_log api j mr w = pre @ [Acquire] @ evs"
    and ev: "events (snd (retry_loop api j mr [0..<nat mr] (wait_for_rate_limit w)))
         = events (wait_for_rate_limit w) @ evs"
    and pre: "acquires_and_calls pre = []"
    using invocation_log_split by blast
  from assms(1) no_call_in_quiet [OF pre] have "ApiCall k \<in> set evs"
    by (auto simp: split)
  from retry_loop_backoff [OF refl ev this assms(2,3,4)]
  have "sublist [ApiCall k, Sleep (INITIAL_RETRY_DELAY * 2 ^ k + j k), ResetWindow, ApiCall (Suc k)] evs" .
  then show ?thesis
    unfolding split by (metis sublist_append sublist_order.order.trans sublist_append_leftI)
qed

lemma invocation_exhausted:
  assumes "fst (generate_content api j mr w) = Inl (RateLimitExceeded n)"
  shows "n = mr \<and> int (attempts_made (invocation_log api j mr w)) = n"
proof -
  let ?w0 = "wait_for_rate_limit w"
  from assms have "fst (retry_loop api j mr [0..<nat mr] ?w0) = Inl (RateLimitExceeded n)"
    by (simp add: generate_content_def)
  from retry_loop_exhausted [OF refl this]
  obtain evs where n: "n = mr"
    and ev: "events (snd (retry_loop api j mr [0..<nat mr] ?w0)) = events ?w0 @ evs"
    and made: "attempts_made evs = length [0..<nat mr]"
    by blast
  obtain pre where pre: "events ?w0 = events w @ pre @ [Acquire]"
    and quiet: "acquires_and_calls pre = []"
    using wait_for_rate_limit_log by blast
  have split: "invocation_log api j mr w = pre @ [Acquire] @ evs"
    by (simp add: invocation_log_def new_events_def generate_content_def ev pre)
  have total: "attempts_made (invocation_log api j mr w) = nat mr"
    using made by (simp add: split attempts_made_quiet [OF quiet]) (simp add: attempts_made_def)
  have "0 < nat mr"
  proof (rule ccontr)
    assume "\<not> 0 < nat mr"
    then have "[0..<nat mr] = []" by simp
    with assms show False by (simp add: generate_content_def)
  qed
  with n total show ?thesis by simp
qed

text \<open>
  Claim C1, as amended. In every invocation of \<open>generate_content\<close> the acquire step runs
  exactly once, before the first attempt: the acquires and external calls of the
  invocation are, in order, one acquire and then the attempts \<open>0, 1, \<dots>\<close>, at most
  \<open>max_retries\<close> of them. No retry has an acquire of its own.
\<close>

theorem acquire_once_per_invocation:
  "acquires_and_calls (invocation_log api jitter max_retries w)
     = Acquire # map ApiCall [0..<attempts_made (invocation_log api jitter max_retries w)]
   \<and> attempts_made (invocation_log api jitter max_retries w) \<le> nat max_retries
   \<and> count_list (invocation_log api jitter max_retries w) Acquire = 1"
proof -
  obtain n pre evs where n: "n \<le> nat max_retries"
    and new: "invocation_log api jitter max_retries w = pre @ [Acquire] @ evs"
    and pre: "acquires_and_calls pre = []"
    and ac: "acquires_and_calls evs = map ApiCall [0..<n]"
    using invocation_log_split by blast
  let ?new = "invocation_log api jitter max_retries w"
  have filt: "acquires_and_calls ?new = Acquire # map ApiCall [0..<n]"
    by (simp add: new pre ac)
  have "attempts_made ?new = attempts_made (acquires_and_calls ?new)"
    by (simp add: attempts_made_acquires_and_calls)
  also have "\<dots> = n"
    by (simp add: filt attempts_made_def)
  finally have made: "attempts_made ?new = n" .
  have "count_list ?new Acquire = count_list (acquires_and_calls ?new) Acquire"
    by (simp add: count_acquires_and_calls)
  also have "\<dots> = 1"
    by (simp add: filt count_calls)
  finally show ?thesis
    using filt made n by simp
qed

text \<open>
  Claim C1 as stated fails: when the first attempt meets a 429 and the second succeeds,
  the second call follows the back-off sleep and the window reset, with no acquire
  between the two calls.
\<close>

theorem acquire_before_every_attempt_counterexample:
  "invocation_log api_429_once (\<lambda>attempt. 5) MAX_RETRIES w_init
     = [Acquire, ApiCall 0, Sleep 20, ResetWindow, ApiCall 1]
   \<and> \<not> acquire_before_every_attempt
         (invocation_log api_429_once (\<lambda>attempt. 5) MAX_RETRIES w_init)"
  unfolding invocation_log_def by code_simp

text \<open>
  Claim C5. Attempts are numbered from 0 in the model, so attempt \<open>k\<close> here is the
  specification's attempt \<open>k + 1\<close>. In every invocation at most \<open>max_retries\<close> attempts
  are made. Whenever attempt \<open>k\<close> is made, fails with an error whose lower-cased text
  contains rate, limit, 429 or quota, and is not the last one, the code sleeps
  \<open>INITIAL_RETRY_DELAY * 2 ^ k + jitter k\<close> seconds, resets the window counter to 0 and
  the window start to the current time, and only then makes attempt \<open>k + 1\<close>; with the
  jitter between 2 and 8 the sleep is between \<open>15 * 2 ^ k + 2\<close> and
  \<open>15 * 2 ^ k + 8\<close>. Whenever the invocation fails with the rate-limit-exceeded error,
  the number the error carries is \<open>max_retries\<close> and it is the number of attempts made.
  When every attempt fails with a rate-limit error, the invocation fails with that error.
\<close>

theorem rate_limit_retry_policy:
  "attempts_made (invocation_log api jitter max_retries w) \<le> nat max_retries
   \<and> (ApiCall k \<in> set (invocation_log api jitter max_retries w)
        \<and> api k = Raised e \<and> is_rate_limit (lower e) \<and> int k < max_retries - 1
      \<longrightarrow> sublist [ApiCall k, Sleep (INITIAL_RETRY_DELAY * 2 ^ k + jitter k),
                    ResetWindow, ApiCall (Suc k)]
            (invocation_log api jitter max_retries w)
        \<and> retry_loop api jitter max_retries (k # rest) v
            = retry_loop api jitter max_retries rest
                (rate_limit_backoff jitter k (v\<lparr>events := events v @ [ApiCall k]\<rparr>)))
   \<and> api_call_count (rate_limit_backoff jitter k v) = 0
   \<and> minute_start_time (rate_limit_backoff jitter k v) = clock (rate_limit_backoff jitter k v)
   \<and> clock (rate_limit_backoff jitter k v) = clock v + (INITIAL_RETRY_DELAY * 2 ^ k + jitter k)
   \<and> (2 \<le> jitter k \<and> jitter k \<le> 8
      \<longrightarrow> clock v + (15 * 2 ^ k + 2) \<le> clock (rate_limit_backoff jitter k v)
        \<and> clock (rate_limit_backoff jitter k v) \<le> clock v + (15 * 2 ^ k + 8))
   \<and> (fst (generate_content api jitter max_retries w) = Inl (RateLimitExceeded n)
      \<longrightarrow> n = max_retries
        \<and> int (attempts_made (invocation_log api jitter max_retries w)) = n)
   \<and> ((\<forall>i<nat max_retries. \<exists>e. api i = Raised e \<and> is_rate_limit (lower e))
        \<and> 1 \<le> max_retries
      \<longrightarrow> fst (generate_content api jitter max_retries w)
            = Inl (RateLimitExceeded max_retries))"
proof -
  have step: "api k = Raised e \<and> is_rate_limit (lower e) \<and> int k < max_retries - 1
      \<longrightarrow> retry_loop api jitter max_retries (k # rest) v
            = retry_loop api jitter max_retries rest
                (rate_limit_backoff jitter k (v\<lparr>events := events v @ [ApiCall k]\<rparr>))"
    by simp
  have bounds: "2 \<le> jitter k \<and> jitter k \<le> 8
      \<longrightarrow> clock v + (15 * 2 ^ k + 2) \<le> clock (rate_limit_backoff jitter k v)
        \<and> clock (rate_limit_backoff jitter k v) \<le> clock v + (15 * 2 ^ k + 8)"
    by (simp add: INITIAL_RETRY_DELAY_def)
  have all: "(\<forall>i<nat max_retries. \<exists>e. api i = Raised e \<and> is_rate_limit (lower e))
        \<and> 1 \<le> max_retries
      \<longrightarrow> fst (generate_content api jitter max_retries w)
            = Inl (RateLimitExceeded max_retries)"
  proof (intro impI, elim conjE)
    assume a: "\<forall>i<nat max_retries. \<exists>e. api i = Raised e \<and> is_rate_limit (lower e)"
      and m: "1 \<le> max_retries"
    from m have "[0..<nat max_retries] \<noteq> []" by simp
    from retry_loop_all_rate_limited [OF refl this a]
    show "fst (generate_content api jitter max_retries w) = Inl (RateLimitExceeded max_retries)"
      by (simp add: generate_content_def)
  qed
  show ?thesis
    using invocation_attempts [of api jitter max_retries w]
      invocation_backoff [of k api jitter max_retries w e]
      invocation_exhausted [of api jitter max_retries w n]
      step bounds all
    by (simp only: rate_limit_backoff_fields) blast
qed

theorem rate_limit_retry_policy_witness:
  "ApiCall 0 \<in> set (invocation_log api_429_always (\<lambda>attempt. 5) MAX_RETRIES w_init)
   \<and> api_429_always 0 = Raised ''Error code: 429 - Rate limit reached''
   \<and> is_rate_limit (lower ''Error code: 429 - Rate limit reached'')
   \<and> int 0 < MAX_RETRIES - 1
   \<and> (2::real) \<le> 5 \<and> (5::real) \<le> 8
   \<and> api_429_always 1 = Raised ''Error code: 429 - Rate limit reached''
   \<and> api_429_always 2 = Raised ''Error code: 429 - Rate limit reached''
   \<and> api_429_always 3 = Raised ''Error code: 429 - Rate limit reached''
   \<and> nat MAX_RETRIES = 4
   \<and> 1 \<le> MAX_RETRIES
   \<and> sublist [ApiCall 0, Sleep 20, ResetWindow, ApiCall 1]
        (invocation_log api_429_always (\<lambda>attempt. 5) MAX_RETRIES w_init)
   \<and> fst (generate_content api_429_always (\<lambda>attempt. 5) MAX_RETRIES w_init)
       = Inl (RateLimitExceeded 4)
   \<and> attempts_made (invocation_log api_429_always (\<lambda>attempt. 5) MAX_RETRIES w_init) = 4"
proof -
  have call: "ApiCall 0 \<in> set (invocation_log api_429_always (\<lambda>attempt. 5) MAX_RETRIES w_init)"
    unfolding invocation_log_def by code_simp
  have raised: "api_429_always i = Raised ''Error code: 429 - Rate limit reached''" for i
    by (simp add: api_429_always_def)
  have rl: "is_rate_limit (lower ''Error code: 429 - Rate limit reached'')"
    by code_simp
  have more: "int 0 < MAX_RETRIES - 1" "1 \<le> MAX_RETRIES"
    by (simp_all add: MAX_RETRIES_def)
  have every: "\<forall>i<nat MAX_RETRIES. \<exists>e. api_429_always i = Raised e \<and> is_rate_limit (lower e)"
    using raised rl by blast
  from rate_limit_retry_policy [of api_429_always "\<lambda>attempt. 5" MAX_RETRIES w_init 0
      "''Error code: 429 - Rate limit reached''" "[]" w_init 4]
    call raised rl more every
  show ?thesis
    by (simp add: INITIAL_RETRY_DELAY_def MAX_RETRIES_def)
qed

section \<open>Properties of parse_json_response\<close>

lemma split_on_nonempty: "split_on sep cur s \<noteq> []"
  by (induction sep cur s rule: split_on.induct) simp_all

lemma split_on_two:
  "sep \<noteq> [] \<Longrightarrow> sublist sep s \<Longrightarrow> \<exists>a b rest. split_on sep cur s = a # b # rest"
proof (induction sep cur s rule: split_on.induct)
  case (1 sep cur)
  then show ?case by simp
next
  case (2 sep cur c cs)
  show ?case
  proof (cases "prefix sep (c # cs)")
    case True
    obtain b rest where "split_on sep [] (drop (length sep) (c # cs)) = b # rest"
      using split_on_nonempty [of sep "[]" "drop (length sep) (c # cs)"]
      by (cases "split_on sep [] (drop (length sep) (c # cs))") auto
    with True "2.prems" show ?thesis by simp
  next
    case False
    with "2.prems" have "sublist sep cs"
      by (simp add: sublist_Cons_right)
    with False "2.IH"(2) "2.prems" show ?thesis by simp
  qed
qed

lemma remove_code_fence_total: "\<exists>fenced. remove_code_fence text = Inr fenced"
proof -
  have one: "\<exists>a rest. py_split sep s = a # rest" for sep s
    using split_on_nonempty [of sep "[]" s]
    by (cases "py_split sep s") (auto simp: py_split_def)
  have two: "sublist ''```json'' text \<Longrightarrow> \<exists>a b rest. py_split ''```json'' text = a # b # rest"
    unfolding py_split_def by (rule split_on_two) simp_all
  have three: "2 \<le> length parts \<Longrightarrow> \<exists>a b rest. parts = a # b # rest" for parts :: "string list"
    by (cases parts; cases "tl parts") auto
  show ?thesis
  proof (cases "sublist ''```json'' text")
    case True
    from two [OF True] obtain a b rest where sp: "py_split ''```json'' text = a # b # rest"
      by blast
    from one [of "''```''" b] obtain x xs where "py_split ''```'' b = x # xs"
      by blast
    with True sp show ?thesis
      by (simp add: remove_code_fence_def second_def first_def)
  next
    case False
    show ?thesis
    proof (cases "sublist ''```'' text \<and> 2 \<le> length (py_split ''```'' text)")
      case True
      with three obtain a b rest where "py_split ''```'' text = a # b # rest"
        by blast
      with False True show ?thesis
        by (auto simp: remove_code_fence_def second_def Let_def)
    next
      case no: False
      with False show ?thesis
        by (auto simp: remove_code_fence_def Let_def)
    qed
  qed
qed

lemma clean_json_response_total: "\<exists>cleaned. clean_json_response text = Inr cleaned"
  using remove_code_fence_total [of "text"]
  by (auto simp: clean_json_response_def Let_def)

lemma py_find_none: "py_find c s = - 1 \<longleftrightarrow> c \<notin> set s"
  and py_find_nonneg: "- 1 \<le> py_find c s"
  by (induction s) (auto simp: Let_def)

lemma py_find_first:
  "py_find c s \<noteq> - 1 \<Longrightarrow>
   \<exists>pre post. s = pre @ c # post \<and> c \<notin> set pre \<and> py_find c s = int (length pre)"
proof (induction s)
  case Nil
  then show ?case by simp
next
  case (Cons x xs)
  show ?case
  proof (cases "x = c")
    case True
    then show ?thesis
      by (intro exI [of _ "[]"] exI [of _ xs]) simp
  next
    case False
    with Cons.prems have "py_find c xs \<noteq> - 1"
      by (auto simp: Let_def split: if_splits)
    from Cons.IH [OF this] obtain pre post where
      "xs = pre @ c # post" "c \<notin> set pre" "py_find c xs = int (length pre)"
      by blast
    with False show ?thesis
      by (intro exI [of _ "x # pre"] exI [of _ post]) (simp add: Let_def)
  qed
qed

lemma py_rfind_last:
  "py_rfind c s \<noteq> - 1 \<Longrightarrow>
   \<exists>pre post. s = pre @ c # post \<and> c \<notin> set post \<and> py_rfind c s = int (length pre)"
proof -
  assume a: "py_rfind c s \<noteq> - 1"
  then have "py_find c (rev s) \<noteq> - 1"
    by (auto simp: py_rfind_def Let_def)
  from py_find_first [OF this] obtain p q where
    r: "rev s = p @ c # q" and p: "c \<notin> set p" and f: "py_find c (rev s) = int (length p)"
    by blast
  from r have s: "s = rev q @ c # rev p"
    by (metis rev_append rev.simps(2) rev_rev_ident append.assoc append_Cons append_Nil)
  have "py_rfind c s = int (length (rev q))"
    using f by (simp add: py_rfind_def Let_def) (simp add: s)
  with s p show ?thesis
    by (intro exI [of _ "rev q"] exI [of _ "rev p"]) simp
qed

lemma recovery_slice:
  assumes "py_find a t \<noteq> - 1" "py_find a t < py_rfind b t + 1" "a \<noteq> b"
  shows "\<exists>pre mid post. t = pre @ (a # mid @ [b]) @ post \<and> a \<notin> set pre \<and> b \<notin> set post
     \<and> py_slice t (py_find a t) (py_rfind b t + 1) = a # mid @ [b]"
proof -
  from py_find_first [OF assms(1)] obtain pre post1 where
    t1: "t = pre @ a # post1" and pre: "a \<notin> set pre" and f: "py_find a t = int (length pre)"
    by blast
  from assms(2) f have "py_rfind b t \<noteq> - 1" by linarith
  from py_rfind_last [OF this] obtain pre2 post where
    t2: "t = pre2 @ b # post" and post: "b \<notin> set post" and r: "py_rfind b t = int (length pre2)"
    by blast
  from assms(2) f r have le: "length pre \<le> length pre2" by linarith
  have "length pre \<noteq> length pre2"
  proof
    assume "length pre = length pre2"
    with t1 t2 have "a = b"
      by (metis append_eq_append_conv list.inject)
    with assms(3) show False by simp
  qed
  with le have lt: "length pre < length pre2" by simp
  from t1 t2 have "pre @ a # post1 = pre2 @ b # post" by simp
  with lt obtain mid where pre2: "pre2 = pre @ a # mid"
    by (auto simp: append_eq_append_conv2 Cons_eq_append_conv)
  have len: "nat (int (length pre2) + 1 - int (length pre)) = Suc (Suc (length mid))"
    by (simp add: pre2)
  have "py_slice t (py_find a t) (py_rfind b t + 1) = a # mid @ [b]"
    unfolding f r py_slice_def len by (simp add: t2 pre2)
  with t2 pre2 pre post show ?thesis
    by (intro exI [of _ pre] exI [of _ mid] exI [of _ post]) simp
qed


lemma py_strip_untouched:
  "t \<noteq> [] \<Longrightarrow> \<not> is_space (hd t) \<Longrightarrow> \<not> is_space (last t) \<Longrightarrow> py_strip t = t"
proof -
  assume t: "t \<noteq> []" and h: "\<not> is_space (hd t)" and l: "\<not> is_space (last t)"
  from t h have front: "dropWhile is_space t = t"
    by (cases t) simp_all
  from t l have "dropWhile is_space (rev t) = rev t"
    by (cases t rule: rev_cases) simp_all
  with front show ?thesis
    by (simp add: py_strip_def)
qed

lemma clean_json_response_untouched:
  assumes "CHR ''`'' \<notin> set t" "t \<noteq> []" "\<not> is_space (hd t)" "\<not> is_space (last t)"
    and "\<not> prefix ''json'' t"
  shows "clean_json_response t = Inr t"
proof -
  have "\<not> sublist ''```json'' t" "\<not> sublist ''```'' t"
    using assms(1) set_mono_sublist [of "''```json''" t] set_mono_sublist [of "''```''" t]
    by auto
  then have "remove_code_fence t = Inr t"
    by (simp add: remove_code_fence_def)
  with assms show ?thesis
    by (simp add: clean_json_response_def py_strip_untouched)
qed

lemma clean_deep_brackets: "clean_json_response deep_brackets = Inr deep_brackets"
proof (rule clean_json_response_untouched)
  show "CHR ''`'' \<notin> set deep_brackets" "deep_brackets \<noteq> []"
    by (simp_all add: deep_brackets_def)
  have "hd deep_brackets = CHR ''[''" "last deep_brackets = CHR ''[''"
    by (simp_all add: deep_brackets_def)
  then show "\<not> is_space (hd deep_brackets)" "\<not> is_space (last deep_brackets)"
    by (simp_all add: is_space_def)
  show "\<not> prefix ''json'' deep_brackets"
  proof
    assume "prefix ''json'' deep_brackets"
    then obtain zs where "deep_brackets = ''json'' @ zs"
      by (auto simp: prefix_def)
    then have "hd deep_brackets = hd (''json'' @ zs)"
      by (rule arg_cong)
    then have "hd deep_brackets = CHR ''j''"
      by simp
    with \<open>hd deep_brackets = CHR ''[''\<close> show False
      by simp
  qed
qed

lemma loads_deep_brackets: "json_loads_known deep_brackets = OtherError RecursionError"
proof -
  have len: "length deep_brackets = 1000"
    by (simp add: deep_brackets_def)
  have "deep_brackets \<noteq> s" if "length s < 1000" for s
    using that len by auto
  then have "deep_brackets \<noteq> ''{}''" "deep_brackets \<noteq> ''null''"
    by simp_all
  then show ?thesis
    by (simp add: json_loads_known_def)
qed

text \<open>
  Claim C7, as amended. The sanitizer never raises. When \<open>json.loads\<close> accepts the
  sanitized text, its value is returned. When it raises an exception other than
  JSONDecodeError there, that exception reaches the caller. When it raises JSONDecodeError,
  and the original text has a \<open>{\<close> with a \<open>}\<close> somewhere after it, the recovery pass
  parses the part of the original text from the first \<open>{\<close> to the last \<open>}\<close> and
  returns its value if \<open>json.loads\<close> accepts it. In every other case the function
  returns \<open>None\<close>, the result that a text parsing to JSON \<open>null\<close> gives: a malformed
  text never reaches the caller as an error. An error reaches the caller only from the
  strict pass, as said, or for the argument \<open>None\<close> (TypeError).
\<close>

theorem parse_json_response_recovery:
  "(\<exists>cleaned. clean_json_response t = Inr cleaned)
   \<and> (clean_json_response t = Inr cleaned \<and> json_loads cleaned = Parsed v
      \<longrightarrow> parse_json_response json_loads (Some t) = Inr v)
   \<and> (clean_json_response t = Inr cleaned \<and> json_loads cleaned = OtherError e
      \<longrightarrow> parse_json_response json_loads (Some t) = Inl e)
   \<and> (clean_json_response t = Inr cleaned \<and> json_loads cleaned = DecodeError
        \<and> py_find CHR ''{'' t \<noteq> - 1 \<and> py_find CHR ''{'' t < py_rfind CHR ''}'' t + 1
      \<longrightarrow> parse_json_response json_loads (Some t)
            = (case json_loads (py_slice t (py_find CHR ''{'' t) (py_rfind CHR ''}'' t + 1)) of
                 Parsed v \<Rightarrow> Inr v | DecodeError \<Rightarrow> Inr JNull | OtherError x \<Rightarrow> Inr JNull)
        \<and> (\<exists>pre mid post. t = pre @ (CHR ''{'' # mid @ [CHR ''}'']) @ post
              \<and> CHR ''{'' \<notin> set pre \<and> CHR ''}'' \<notin> set post
              \<and> py_slice t (py_find CHR ''{'' t) (py_rfind CHR ''}'' t + 1)
                  = CHR ''{'' # mid @ [CHR ''}'']))
   \<and> (clean_json_response t = Inr cleaned \<and> json_loads cleaned = DecodeError
        \<and> (py_find CHR ''{'' t = - 1 \<or> py_rfind CHR ''}'' t + 1 \<le> py_find CHR ''{'' t)
      \<longrightarrow> parse_json_response json_loads (Some t) = Inr JNull)
   \<and> (py_find CHR ''{'' t = - 1 \<longleftrightarrow> CHR ''{'' \<notin> set t)
   \<and> (parse_json_response json_loads (Some t) = Inl e
      \<longrightarrow> (\<exists>c. clean_json_response t = Inr c \<and> json_loads c = OtherError e))
   \<and> parse_json_response json_loads None = Inl TypeError"
proof -
  obtain c where c: "clean_json_response t = Inr c"
    using clean_json_response_total by blast
  have strict: "clean_json_response t = Inr cleaned \<and> json_loads cleaned = Parsed v
      \<longrightarrow> parse_json_response json_loads (Some t) = Inr v"
    by (simp add: parse_json_response_def)
  have escapes: "clean_json_response t = Inr cleaned \<and> json_loads cleaned = OtherError e
      \<longrightarrow> parse_json_response json_loads (Some t) = Inl e"
    by (simp add: parse_json_response_def)
  have recover: "clean_json_response t = Inr cleaned \<and> json_loads cleaned = DecodeError
        \<and> py_find CHR ''{'' t \<noteq> - 1 \<and> py_find CHR ''{'' t < py_rfind CHR ''}'' t + 1
      \<longrightarrow> parse_json_response json_loads (Some t)
            = (case json_loads (py_slice t (py_find CHR ''{'' t) (py_rfind CHR ''}'' t + 1)) of
                 Parsed v \<Rightarrow> Inr v | DecodeError \<Rightarrow> Inr JNull | OtherError x \<Rightarrow> Inr JNull)"
    by (simp add: parse_json_response_def Let_def)
  have slice: "py_find CHR ''{'' t \<noteq> - 1 \<and> py_find CHR ''{'' t < py_rfind CHR ''}'' t + 1
      \<longrightarrow> (\<exists>pre mid post. t = pre @ (CHR ''{'' # mid @ [CHR ''}'']) @ post
              \<and> CHR ''{'' \<notin> set pre \<and> CHR ''}'' \<notin> set post
              \<and> py_slice t (py_find CHR ''{'' t) (py_rfind CHR ''}'' t + 1)
                  = CHR ''{'' # mid @ [CHR ''}''])"
    using recovery_slice [of "CHR ''{''" t "CHR ''}''"] by simp
  have give_up: "clean_json_response t = Inr cleaned \<and> json_loads cleaned = DecodeError
        \<and> (py_find CHR ''{'' t = - 1 \<or> py_rfind CHR ''}'' t + 1 \<le> py_find CHR ''{'' t)
      \<longrightarrow> parse_json_response json_loads (Some t) = Inr JNull"
    by (auto simp: parse_json_response_def Let_def)
  have origin: "parse_json_response json_loads (Some t) = Inl e
      \<longrightarrow> (\<exists>c. clean_json_response t = Inr c \<and> json_loads c = OtherError e)"
    by (simp add: parse_json_response_def c Let_def split: loads_result.splits if_splits)
  have none: "parse_json_response json_loads None = Inl TypeError"
    by (simp add: parse_json_response_def)
  from c strict escapes recover slice give_up origin none py_find_none [of "CHR ''{''" t]
  show ?thesis by blast
qed

theorem parse_json_response_recovery_witness:
  "clean_json_response ''null'' = Inr ''null'' \<and> json_loads_known ''null'' = Parsed JNull
   \<and> parse_json_response json_loads_known (Some ''null'') = Inr JNull
   \<and> clean_json_response deep_brackets = Inr deep_brackets
   \<and> json_loads_known deep_brackets = OtherError RecursionError
   \<and> parse_json_response json_loads_known (Some deep_brackets) = Inl RecursionError
   \<and> clean_json_response ''Here you go: {} bye'' = Inr ''Here you go: {} bye''
   \<and> json_loads_known ''Here you go: {} bye'' = DecodeError
   \<and> py_find CHR ''{'' ''Here you go: {} bye'' \<noteq> - 1
   \<and> py_find CHR ''{'' ''Here you go: {} bye''
       < py_rfind CHR ''}'' ''Here you go: {} bye'' + 1
   \<and> parse_json_response json_loads_known (Some ''Here you go: {} bye'') = Inr (JObject [])
   \<and> clean_json_response ''not json'' = Inr ''not json''
   \<and> json_loads_known ''not json'' = DecodeError
   \<and> py_find CHR ''{'' ''not json'' = - 1
   \<and> parse_json_response json_loads_known (Some ''not json'') = Inr JNull"
proof -
  have a: "clean_json_response ''null'' = Inr ''null''"
    "json_loads_known ''null'' = Parsed JNull"
    by code_simp+
  have b: "clean_json_response ''Here you go: {} bye'' = Inr ''Here you go: {} bye''"
    "json_loads_known ''Here you go: {} bye'' = DecodeError"
    "py_find CHR ''{'' ''Here you go: {} bye'' = 13"
    "py_rfind CHR ''}'' ''Here you go: {} bye'' = 14"
    "json_loads_known (py_slice ''Here you go: {} bye'' 13 (14 + 1)) = Parsed (JObject [])"
    by code_simp+
  have c: "clean_json_response ''not json'' = Inr ''not json''"
    "json_loads_known ''not json'' = DecodeError"
    "py_find CHR ''{'' ''not json'' = - 1"
    by code_simp+
  from parse_json_response_recovery [of "''null''" "''null''" json_loads_known JNull]
    parse_json_response_recovery [of deep_brackets deep_brackets json_loads_known _ RecursionError]
    parse_json_response_recovery [of "''Here you go: {} bye''"
      "''Here you go: {} bye''" json_loads_known]
    parse_json_response_recovery [of "''not json''" "''not json''" json_loads_known]
    a b c clean_deep_brackets loads_deep_brackets
  show ?thesis by simp
qed

text \<open>
  Claim C7 as stated fails: the text \<open>not json\<close> is rejected by the strict parse and has
  no brace for the recovery pass, and the caller gets \<open>None\<close>, the value it also gets
  for the JSON text \<open>null\<close>, and no error. The same holds for \<open>{oops}\<close>, which both
  passes reject.
\<close>

theorem parse_failure_returns_none_counterexample:
  "parse_json_response json_loads_known (Some ''not json'') = Inr JNull
   \<and> parse_json_response json_loads_known (Some ''{oops}'') = Inr JNull
   \<and> parse_json_response json_loads_known (Some ''null'') = Inr JNull"
  by code_simp

section \<open>Properties of determine_candidate_tier\<close>

lemma critical_avg_fixtures:
  "critical_avg (critical_scores 90) = 90"
  "critical_avg (critical_scores 40) = 40"
  "critical_avg (critical_scores 20) = 20"
  by code_simp+

text \<open>
  The average is the float one. For the scores 2.56, 97.44 and 50.0 (as doubles) the sum
  rounds to 150.0 and the average is exactly 50.0, while the average of the same three
  numbers over the rationals is below 50.
\<close>

lemma critical_avg_rounding:
  "critical_avg [(''skills'', fl (64 / 25)), (''tools'', fl (2436 / 25)), (''experience'', 50)] = 50"
  "(fl (64 / 25) + fl (2436 / 25) + 50) / 3 < 50"
  by code_simp+

text \<open>
  Claim C3, as amended. Without a rationale the tier is the base tier of the thresholds
  (80, 60, 40, 20) after the critical-category safeguard, where the critical average is
  the float average of the skills, tools and experience scores (a missing score counting
  0). The two rules of the safeguard exclude each other: a base tier of Top or Best with
  an average below 50 becomes Moderate and stays Moderate, also when the average is below
  30; a base tier of Moderate with an average below 30 becomes Low; every other tier
  stands. This is the tier of the rules applied one after the other except where overall
  is at least 60 and the average is below 30. Overall 85 with critical average 40 gives
  Moderate.
\<close>

theorem tier_thresholds_and_safeguard:
  "critical_avg scores
     = fl (py_sum [score_get scores ''skills'', score_get scores ''tools'',
                   score_get scores ''experience''] / 3)
   \<and> (80 \<le> overall \<and> 50 \<le> critical_avg scores
        \<longrightarrow> determine_candidate_tier overall scores None = TOP)
   \<and> (60 \<le> overall \<and> overall < 80 \<and> 50 \<le> critical_avg scores
        \<longrightarrow> determine_candidate_tier overall scores None = BEST)
   \<and> (60 \<le> overall \<and> critical_avg scores < 50
        \<longrightarrow> determine_candidate_tier overall scores None = MODERATE)
   \<and> (40 \<le> overall \<and> overall < 60 \<and> 30 \<le> critical_avg scores
        \<longrightarrow> determine_candidate_tier overall scores None = MODERATE)
   \<and> (40 \<le> overall \<and> overall < 60 \<and> critical_avg scores < 30
        \<longrightarrow> determine_candidate_tier overall scores None = LOW)
   \<and> (20 \<le> overall \<and> overall < 40
        \<longrightarrow> determine_candidate_tier overall scores None = LOW)
   \<and> (overall < 20
        \<longrightarrow> determine_candidate_tier overall scores None = VERY_LOW)
   \<and> determine_candidate_tier overall scores None = safeguard scores (base_tier overall)
   \<and> determine_candidate_tier overall scores (Some []) = safeguard scores (base_tier overall)
   \<and> (overall < 60 \<or> 30 \<le> critical_avg scores
        \<longrightarrow> determine_candidate_tier overall scores None
            = claimed_tier overall (critical_avg scores))
   \<and> determine_candidate_tier 85 (critical_scores 40) None = MODERATE"
proof -
  have avg: "critical_avg scores
     = fl (py_sum [score_get scores ''skills'', score_get scores ''tools'',
                   score_get scores ''experience''] / 3)"
    by (simp add: critical_avg_def)
  have rows: "(80 \<le> overall \<and> 50 \<le> critical_avg scores
        \<longrightarrow> determine_candidate_tier overall scores None = TOP)
   \<and> (60 \<le> overall \<and> overall < 80 \<and> 50 \<le> critical_avg scores
        \<longrightarrow> determine_candidate_tier overall scores None = BEST)
   \<and> (60 \<le> overall \<and> critical_avg scores < 50
        \<longrightarrow> determine_candidate_tier overall scores None = MODERATE)
   \<and> (40 \<le> overall \<and> overall < 60 \<and> 30 \<le> critical_avg scores
        \<longrightarrow> determine_candidate_tier overall scores None = MODERATE)
   \<and> (40 \<le> overall \<and> overall < 60 \<and> critical_avg scores < 30
        \<longrightarrow> determine_candidate_tier overall scores None = LOW)
   \<and> (20 \<le> overall \<and> overall < 40
        \<longrightarrow> determine_candidate_tier overall scores None = LOW)
   \<and> (overall < 20
        \<longrightarrow> determine_candidate_tier overall scores None = VERY_LOW)
   \<and> determine_candidate_tier overall scores None = safeguard scores (base_tier overall)
   \<and> determine_candidate_tier overall scores (Some []) = safeguard scores (base_tier overall)"
    by (simp add: determine_candidate_tier_def reasoning_adjustment_def safeguard_def
        base_tier_def)
  have seq: "overall < 60 \<or> 30 \<le> critical_avg scores
        \<longrightarrow> determine_candidate_tier overall scores None
            = claimed_tier overall (critical_avg scores)"
    by (auto simp: determine_candidate_tier_def reasoning_adjustment_def safeguard_def
        base_tier_def claimed_tier_def Let_def)
  have ex: "determine_candidate_tier 85 (critical_scores 40) None = MODERATE"
    by (simp add: determine_candidate_tier_def reasoning_adjustment_def safeguard_def
        base_tier_def critical_avg_fixtures)
  from avg rows seq ex show ?thesis by blast
qed

theorem tier_thresholds_and_safeguard_witness:
  "(80::real) \<le> 85 \<and> 50 \<le> critical_avg (critical_scores 90)
   \<and> determine_candidate_tier 85 (critical_scores 90) None = TOP
   \<and> determine_candidate_tier 65 (critical_scores 90) None = BEST
   \<and> critical_avg (critical_scores 20) < 50
   \<and> determine_candidate_tier 85 (critical_scores 20) None = MODERATE
   \<and> determine_candidate_tier 45 (critical_scores 90) None = MODERATE
   \<and> critical_avg (critical_scores 20) < 30
   \<and> determine_candidate_tier 45 (critical_scores 20) None = LOW
   \<and> determine_candidate_tier 25 (critical_scores 90) None = LOW
   \<and> determine_candidate_tier 15 (critical_scores 90) None = VERY_LOW
   \<and> determine_candidate_tier 45 (critical_scores 20) None = claimed_tier 45 20"
  using tier_thresholds_and_safeguard [of "critical_scores 90" 85]
    tier_thresholds_and_safeguard [of "critical_scores 90" 65]
    tier_thresholds_and_safeguard [of "critical_scores 20" 85]
    tier_thresholds_and_safeguard [of "critical_scores 90" 45]
    tier_thresholds_and_safeguard [of "critical_scores 20" 45]
    tier_thresholds_and_safeguard [of "critical_scores 90" 25]
    tier_thresholds_and_safeguard [of "critical_scores 90" 15]
  by (simp add: critical_avg_fixtures claimed_tier_def base_tier_def Let_def)

text \<open>
  Claim C3 as stated fails: with overall 85 and a critical average of 20 the rules read
  one after the other give Low (Top to Moderate by the first, Moderate to Low by the
  second), and the code gives Moderate.
\<close>

theorem safeguard_second_rule_counterexample:
  "critical_avg (critical_scores 20) = 20
   \<and> claimed_tier 85 (critical_avg (critical_scores 20)) = LOW
   \<and> determine_candidate_tier 85 (critical_scores 20) None = MODERATE"
  by (simp add: critical_avg_fixtures claimed_tier_def determine_candidate_tier_def
      reasoning_adjustment_def safeguard_def base_tier_def Let_def)

text \<open>
  The branch for a strong-negative phrase assigns Low or Moderate from the overall score
  alone. In two cases that is one step above the tier of step 2: overall from 50 to below
  60 with a critical average below 30 (Low becomes Moderate), and overall below 20
  (Very Low becomes Low).
\<close>

lemma negative_phrase_raises:
  "determine_candidate_tier 55 (critical_scores 20) None = LOW
   \<and> determine_candidate_tier 55 (critical_scores 20) (Some ''Not recommended.'') = MODERATE
   \<and> determine_candidate_tier 15 (critical_scores 90) None = VERY_LOW
   \<and> determine_candidate_tier 15 (critical_scores 90) (Some ''Not recommended.'') = LOW"
proof -
  have "\<not> strong_positive (lower ''Not recommended.'')"
    "strong_negative (lower ''Not recommended.'')"
    by code_simp+
  then show ?thesis
    by (simp add: determine_candidate_tier_def reasoning_adjustment_def safeguard_def
        base_tier_def Let_def critical_avg_fixtures)
qed

text \<open>
  Claim C4, as amended. The free-text adjustment is decided by the phrase and the overall
  score alone and replaces the tier of step 2. With a strong-positive phrase the tier is
  Top when overall is at least 70, Best when overall is at least 60, and the tier of step
  2 otherwise; that is never below the tier of step 2 and at most one step above the base
  tier of step 1, and it undoes a downgrade of the safeguard. With a strong-negative
  phrase and no strong-positive one, when overall is at least 20 and it is not the case
  that overall lies between 50 and 60 with a critical average below 30, the tier is Low
  when overall is below 50 and Moderate otherwise; that is never above the tier of step 2
  and at most two steps below it. With an empty rationale, or one with neither kind of
  phrase, the tier of step 2 stands.
\<close>

theorem reasoning_adjustment_by_overall:
  "(text \<noteq> [] \<and> strong_positive (lower text)
      \<longrightarrow> determine_candidate_tier overall scores (Some text)
            = (if 70 \<le> overall then TOP else if 60 \<le> overall then BEST
               else determine_candidate_tier overall scores None)
        \<and> tier_rank (determine_candidate_tier overall scores None)
            \<le> tier_rank (determine_candidate_tier overall scores (Some text))
        \<and> tier_rank (determine_candidate_tier overall scores (Some text))
            \<le> tier_rank (base_tier overall) + 1)
   \<and> (text \<noteq> [] \<and> \<not> strong_positive (lower text) \<and> strong_negative (lower text)
        \<and> 20 \<le> overall \<and> (overall < 50 \<or> 60 \<le> overall \<or> 30 \<le> critical_avg scores)
      \<longrightarrow> determine_candidate_tier overall scores (Some text)
            = (if overall < 50 then LOW else MODERATE)
        \<and> tier_rank (determine_candidate_tier overall scores (Some text))
            \<le> tier_rank (determine_candidate_tier overall scores None)
        \<and> tier_rank (determine_candidate_tier overall scores None)
            \<le> tier_rank (determine_candidate_tier overall scores (Some text)) + 2)
   \<and> (text = [] \<or> (\<not> strong_positive (lower text) \<and> \<not> strong_negative (lower text))
      \<longrightarrow> determine_candidate_tier overall scores (Some text)
            = determine_candidate_tier overall scores None)"
  by (auto simp: determine_candidate_tier_def reasoning_adjustment_def safeguard_def
      base_tier_def Let_def)

theorem reasoning_adjustment_by_overall_witness:
  "''Strong hire.'' \<noteq> [] \<and> strong_positive (lower ''Strong hire.'')
   \<and> determine_candidate_tier 75 (critical_scores 90) (Some ''Strong hire.'') = TOP
   \<and> ''Not recommended.'' \<noteq> [] \<and> \<not> strong_positive (lower ''Not recommended.'')
   \<and> strong_negative (lower ''Not recommended.'') \<and> (20::real) \<le> 85 \<and> (60::real) \<le> 85
   \<and> determine_candidate_tier 85 (critical_scores 90) (Some ''Not recommended.'') = MODERATE
   \<and> \<not> strong_positive (lower ''Solid profile.'') \<and> \<not> strong_negative (lower ''Solid profile.'')
   \<and> determine_candidate_tier 85 (critical_scores 90) (Some ''Solid profile.'')
       = determine_candidate_tier 85 (critical_scores 90) None"
proof -
  have pos: "strong_positive (lower ''Strong hire.'')"
    by code_simp
  have neg: "\<not> strong_positive (lower ''Not recommended.'')"
    "strong_negative (lower ''Not recommended.'')"
    by code_simp+
  have neutral: "\<not> strong_positive (lower ''Solid profile.'')"
    "\<not> strong_negative (lower ''Solid profile.'')"
    by code_simp+
  from reasoning_adjustment_by_overall [of "''Strong hire.''" 75 "critical_scores 90"]
    reasoning_adjustment_by_overall [of "''Not recommended.''" 85 "critical_scores 90"]
    reasoning_adjustment_by_overall [of "''Solid profile.''" 85 "critical_scores 90"]
    pos neg neutral
  show ?thesis by simp
qed

text \<open>
  Claim C4 as stated fails: with overall 85 and a critical average of 40 the safeguard
  gives Moderate, and a rationale containing a strong-positive phrase then gives Top, two
  steps up and above the safeguard's result.
\<close>

theorem phrase_overrides_safeguard_counterexample:
  "critical_avg (critical_scores 40) < 50
   \<and> determine_candidate_tier 85 (critical_scores 40) None = MODERATE
   \<and> determine_candidate_tier 85 (critical_scores 40) (Some ''Recommendation: Strong Hire.'') = TOP
   \<and> tier_rank TOP = tier_rank MODERATE + 2"
proof -
  have "strong_positive (lower ''Recommendation: Strong Hire.'')"
    by code_simp
  then show ?thesis
    by (simp add: determine_candidate_tier_def reasoning_adjustment_def safeguard_def
        base_tier_def Let_def critical_avg_fixtures)
qed

section \<open>Properties of rank_candidates\<close>

lemma enumerate_fields:
  "length xs = length ks \<Longrightarrow>
   map (unranked \<circ> (\<lambda>(k, r). r\<lparr>rank := Some k\<rparr>)) (zip ks xs) = map unranked xs"
  by (induction ks xs rule: list_induct2') (simp_all add: unranked_def)

lemma enumerate_ranks:
  "length xs = length ks \<Longrightarrow>
   map (rank \<circ> (\<lambda>(k, r). r\<lparr>rank := Some k\<rparr>)) (zip ks xs) = map Some ks"
  by (induction ks xs rule: list_induct2') simp_all

lemma enumerate_scores:
  "length xs = length ks \<Longrightarrow>
   map (overall_score \<circ> (\<lambda>(k, r). r\<lparr>rank := Some k\<rparr>)) (zip ks xs) = map overall_score xs"
  by (induction ks xs rule: list_induct2') simp_all

lemma rank_candidates_unranked:
  "map unranked (rank_candidates rs) = map unranked (sort_key (\<lambda>x. - overall_score x) rs)"
  by (simp add: rank_candidates_def Let_def enumerate_fields del: upt_Suc)

lemma unranked_score [simp]: "overall_score (unranked r) = overall_score r"
  by (simp add: unranked_def)

lemma sort_key_map_commute:
  "(\<And>x. f (g x) = f x) \<Longrightarrow> map g (sort_key f xs) = sort_key f (map g xs)"
proof (induction xs)
  case Nil
  show ?case by simp
next
  case (Cons x xs)
  have ins: "map g (insort_key f y ys) = insort_key f (g y) (map g ys)" for y ys
    using Cons.prems by (induction ys) simp_all
  from Cons show ?case by (simp add: ins)
qed

text \<open>
  Claim C6. The output of \<open>rank_candidates\<close> lists the results by overall score in
  descending order; results with the same score keep the relative order they had in the
  input; the ranks are \<open>1, 2, \<dots>, n\<close> by position, with no gap and no shared rank;
  and up to the rank every output result is an input result, so no score is changed.
  Scores 70, 90, 90 for c, a, b come out as a, b, c with ranks 1, 2, 3.
\<close>

theorem rank_candidates_stable_dense:
  "map rank (rank_candidates rs) = map Some [1..<Suc (length rs)]
   \<and> sorted (rev (map overall_score (rank_candidates rs)))
   \<and> (\<forall>k. filter (\<lambda>r. overall_score r = k) (map unranked (rank_candidates rs))
          = filter (\<lambda>r. overall_score r = k) (map unranked rs))
   \<and> mset (map unranked (rank_candidates rs)) = mset (map unranked rs)
   \<and> length (rank_candidates rs) = length rs
   \<and> rank_candidates [candidate ''c'' 70, candidate ''a'' 90, candidate ''b'' 90]
       = [(candidate ''a'' 90)\<lparr>rank := Some 1\<rparr>, (candidate ''b'' 90)\<lparr>rank := Some 2\<rparr>,
          (candidate ''c'' 70)\<lparr>rank := Some 3\<rparr>]"
proof -
  let ?key = "\<lambda>x. - overall_score x"
  have ranks: "map rank (rank_candidates rs) = map Some [1..<Suc (length rs)]"
    by (simp add: rank_candidates_def Let_def enumerate_ranks del: upt_Suc)
  have scores: "map overall_score (rank_candidates rs) = map overall_score (sort_key ?key rs)"
    by (simp add: rank_candidates_def Let_def enumerate_scores del: upt_Suc)
  have "sorted (map ?key (sort_key ?key rs))"
    by (rule sorted_sort_key)
  then have "sorted (map uminus (map overall_score (sort_key ?key rs)))"
    by (simp add: comp_def)
  then have desc: "sorted (rev (map overall_score (rank_candidates rs)))"
    unfolding scores by (simp add: sorted_wrt_rev sorted_map sorted_wrt_map)
  have comm: "map unranked (sort_key ?key rs) = sort_key ?key (map unranked rs)"
    by (rule sort_key_map_commute) simp
  have stable: "filter (\<lambda>r. overall_score r = k) (map unranked (rank_candidates rs))
          = filter (\<lambda>r. overall_score r = k) (map unranked rs)" for k
  proof -
    have "filter (\<lambda>r. ?key r = - k) (sort_key ?key (map unranked rs))
        = filter (\<lambda>r. ?key r = - k) (map unranked rs)"
      by (rule sort_key_stable)
    then show ?thesis
      by (simp add: rank_candidates_unranked comm)
  qed
  have perm: "mset (map unranked (rank_candidates rs)) = mset (map unranked rs)"
    by (simp add: rank_candidates_unranked comm)
  have len: "length (rank_candidates rs) = length rs"
    by (simp add: rank_candidates_def Let_def del: upt_Suc)
  have ex: "rank_candidates [candidate ''c'' 70, candidate ''a'' 90, candidate ''b'' 90]
       = [(candidate ''a'' 90)\<lparr>rank := Some 1\<rparr>, (candidate ''b'' 90)\<lparr>rank := Some 2\<rparr>,
          (candidate ''c'' 70)\<lparr>rank := Some 3\<rparr>]"
    by (simp add: rank_candidates_def candidate_def upt_rec)
  from ranks desc stable perm len ex show ?thesis by blast
qed

section \<open>Properties of normalize_weights and validate_rubrics\<close>

lemma fl_literals:
  "fl (0 - 100) = - 100"
  "fl (1 / 10) = 3602879701896397 / 36028797018963968"
  "fl (0 + 0) = 0"
  by code_simp+

lemma normalize_zero_total:
  "py_sum (map snd weights) = 0 \<Longrightarrow> normalize_weights weights = DEFAULT_RUBRICS_WEIGHTS"
  by (simp add: normalize_weights_def)

lemma generated_zero_total:
  assumes "py_sum (map snd weights) = 0"
  shows "generated_weights weights = DEFAULT_RUBRICS_WEIGHTS"
proof -
  have "generated_weights weights = normalize_weights weights"
    unfolding generated_weights_def Let_def assms fl_literals by simp
  with assms show ?thesis
    by (simp add: normalize_zero_total)
qed

lemma validate_zero_total:
  assumes "py_sum (map snd weights) = 0"
  shows "fst (validate_rubrics (Some weights)) = False"
    and "set required_keys \<subseteq> set (map fst weights)
         \<Longrightarrow> validate_rubrics (Some weights) = (False, WeightsSumTo 0)"
proof -
  have big: "\<bar>fl (0 - 100)\<bar> > fl (1 / 10)"
    unfolding fl_literals by simp
  show "fst (validate_rubrics (Some weights)) = False"
    using big by (simp add: validate_rubrics_def assms Let_def split: option.splits)
  assume "set required_keys \<subseteq> set (map fst weights)"
  then have "List.find (\<lambda>key. key \<notin> set (map fst weights)) required_keys = None"
    by (auto simp: find_None_iff)
  with big show "validate_rubrics (Some weights) = (False, WeightsSumTo 0)"
    by (simp add: validate_rubrics_def assms Let_def)
qed

lemma fl_zero: "fl 0 = 0"
  by (simp add: fl_def)

lemma zero_weights_total: "py_sum (map snd zero_weights) = 0"
  unfolding zero_weights_def rubric_weights_def required_keys_def py_sum_def
  by (simp add: fl_zero)

lemma zero_weights_keys: "set required_keys \<subseteq> set (map fst zero_weights)"
  by (simp add: zero_weights_def rubric_weights_def required_keys_def)

text \<open>
  Claim C9, as amended. When the weights sum to 0, \<open>normalize_weights\<close> returns the
  default weight set and raises nothing; so does the check that
  \<open>generate_rubrics_from_jd\<close> applies to generated weights; and \<open>validate_rubrics\<close>
  returns the flag \<open>False\<close> with a message (the sum, when all seven keys are present)
  instead of raising.
\<close>

theorem zero_sum_weights_defaulted:
  "(py_sum (map snd weights) = 0
      \<longrightarrow> normalize_weights weights = DEFAULT_RUBRICS_WEIGHTS
        \<and> generated_weights weights = DEFAULT_RUBRICS_WEIGHTS
        \<and> fst (validate_rubrics (Some weights)) = False)
   \<and> (py_sum (map snd weights) = 0 \<and> set required_keys \<subseteq> set (map fst weights)
      \<longrightarrow> validate_rubrics (Some weights) = (False, WeightsSumTo 0))"
  using normalize_zero_total [of weights] generated_zero_total [of weights]
    validate_zero_total [of weights]
  by blast

theorem zero_sum_weights_defaulted_witness:
  "py_sum (map snd zero_weights) = 0
   \<and> normalize_weights zero_weights = DEFAULT_RUBRICS_WEIGHTS
   \<and> generated_weights zero_weights = DEFAULT_RUBRICS_WEIGHTS
   \<and> validate_rubrics (Some zero_weights) = (False, WeightsSumTo 0)"
  using zero_sum_weights_defaulted [of zero_weights] zero_weights_total zero_weights_keys
  by simp

text \<open>
  Claim C9 as stated fails: for the rubric whose seven weights are 0,
  \<open>normalize_weights\<close> returns the default weights 25, 25, 20, 5, 15, 5, 5.
\<close>

theorem zero_sum_weights_counterexample:
  "zero_weights = [(''skills'', 0), (''tools'', 0), (''experience'', 0), (''education'', 0),
      (''projects'', 0), (''certifications'', 0), (''profile_quality'', 0)]
   \<and> normalize_weights zero_weights
       = [(''skills'', 25), (''tools'', 25), (''experience'', 20), (''education'', 5),
          (''projects'', 15), (''certifications'', 5), (''profile_quality'', 5)]"
  using normalize_zero_total [OF zero_weights_total]
  by (simp add: DEFAULT_RUBRICS_WEIGHTS_def zero_weights_def rubric_weights_def
      required_keys_def)

section \<open>Properties of the fallback rationale\<close>

text \<open>
  Two adjacent characters of a string are a pair of \<open>zip s (tl s)\<close>. A string that
  contains a two-character string has its characters adjacent somewhere, and the adjacent
  pairs of a concatenation are those of its parts and the pairs across the joints.
\<close>

lemma adjacent_Cons:
  "set (zip (x # xs) xs) = (if xs = [] then {} else insert (x, hd xs) (set (zip xs (tl xs))))"
  by (cases xs) auto

lemma sublist_pair_adjacent:
  assumes "sublist [a, b] s"
  shows "(a, b) \<in> set (zip s (tl s))"
proof -
  from assms obtain ps ss where "s = ps @ [a, b] @ ss"
    by (auto simp: sublist_def)
  then show ?thesis
    by (induction ps arbitrary: s) (auto simp: adjacent_Cons)
qed

lemma adjacent_append:
  "set (zip (xs @ ys) (tl (xs @ ys)))
     \<subseteq> set (zip xs (tl xs)) \<union> set (zip ys (tl ys)) \<union> {(last xs, hd ys)}"
proof (induction xs)
  case Nil
  then show ?case by auto
next
  case (Cons x xs)
  then show ?case
    by (cases xs) (auto simp: adjacent_Cons)
qed

lemma adjacent_members:
  "(a, b) \<in> set (zip s (tl s)) \<Longrightarrow> a \<in> set s \<and> b \<in> set s"
  by (cases s) (auto dest: set_zip_leftD set_zip_rightD)

lemma join_with_chars:
  "set (join_with sep ks) \<subseteq> set sep \<union> \<Union> (set ` set ks)"
  by (induction sep ks rule: join_with.induct) auto

lemma join_with_adjacent:
  assumes "\<forall>k \<in> set ks. (a, b) \<notin> set (zip k (tl k))"
    and "(a, b) \<notin> set (zip sep (tl sep))" and "sep \<noteq> []" and "hd sep \<noteq> b" and "last sep \<noteq> a"
  shows "(a, b) \<notin> set (zip (join_with sep ks) (tl (join_with sep ks)))"
  using assms
proof (induction sep ks rule: join_with.induct)
  case (1 sep)
  then show ?case by simp
next
  case (2 sep x)
  then show ?case by simp
next
  case (3 sep x y ys)
  let ?J = "join_with sep (y # ys)"
  have J: "(a, b) \<notin> set (zip ?J (tl ?J))"
    using 3 by simp
  have "(a, b) \<notin> set (zip (sep @ ?J) (tl (sep @ ?J)))"
    using adjacent_append [of sep ?J, THEN subsetD, of "(a, b)"] J "3.prems"(2) "3.prems"(5)
    by auto
  moreover have "hd (sep @ ?J) \<noteq> b"
    using "3.prems"(3) "3.prems"(4) by simp
  moreover have "(a, b) \<notin> set (zip x (tl x))"
    using "3.prems"(1) by simp
  ultimately show ?case
    using adjacent_append [of x "sep @ ?J", THEN subsetD, of "(a, b)"] by auto
qed

lemma digit_char_digit: "d < 10 \<Longrightarrow> digit_char d \<in> set ''0123456789''"
  unfolding digit_char_def by (rule nth_mem) simp

lemma show_nat_digits: "set (show_nat n) \<subseteq> set ''0123456789''"
proof (induction n rule: show_nat.induct)
  case (1 n)
  show ?case
  proof (cases "n < 10")
    case True
    then show ?thesis
      using digit_char_digit [of n] by (subst show_nat.simps) simp
  next
    case False
    have "n mod 10 < 10" by simp
    then have "digit_char (n mod 10) \<in> set ''0123456789''"
      by (rule digit_char_digit)
    with False 1 show ?thesis
      by (subst show_nat.simps) simp
  qed
qed

lemma show_nat_nonempty: "show_nat n \<noteq> []"
  by (subst show_nat.simps) simp

lemma format_1f_chars: "set (format_1f x) \<subseteq> set ''-0123456789.''"
proof -
  let ?n = "nat (round_half_even_real (\<bar>x\<bar> * 10))"
  let ?D = "set ''0123456789''"
  have split: "set (format_1f x)
      \<subseteq> {CHR ''-''} \<union> set (show_nat (?n div 10)) \<union> {CHR ''.''} \<union> {digit_char (?n mod 10)}"
    unfolding format_1f_def Let_def by auto
  have "digit_char (?n mod 10) \<in> ?D"
    by (rule digit_char_digit) simp
  moreover have "set (show_nat (?n div 10)) \<subseteq> ?D"
    by (rule show_nat_digits)
  ultimately have "{CHR ''-''} \<union> set (show_nat (?n div 10)) \<union> {CHR ''.''} \<union> {digit_char (?n mod 10)}
      \<subseteq> {CHR ''-''} \<union> ?D \<union> {CHR ''.''}"
    by blast
  also have "\<dots> = set ''-0123456789.''"
    by auto
  finally show ?thesis
    using split by blast
qed

lemma format_1f_nonempty: "format_1f x \<noteq> []"
  by (simp add: format_1f_def Let_def show_nat_nonempty)

lemma no_pair_in_text:
  assumes "(a, b) \<notin> set (zip A (tl A))" and "(a, b) \<notin> set (zip B (tl B))"
    and "(a, b) \<notin> set (zip C (tl C))" and "(a, b) \<notin> set (zip S (tl S))"
    and "(a, b) \<notin> set (zip W (tl W))"
    and "S \<noteq> []" and "b \<notin> set S" and "B \<noteq> []" and "hd B \<noteq> b"
    and "C \<noteq> []" and "hd C \<noteq> b" and "last B \<noteq> a \<or> b \<notin> set W"
  shows "(a, b) \<notin> set (zip (A @ S @ B @ W @ C) (tl (A @ S @ B @ W @ C)))"
proof -
  have 1: "(a, b) \<notin> set (zip (W @ C) (tl (W @ C)))"
    using adjacent_append [of W C, THEN subsetD, of "(a, b)"] assms(3) assms(5) assms(11)
    by auto
  have "hd (W @ C) \<noteq> b \<or> last B \<noteq> a"
  proof (cases "W = []")
    case True
    with assms(11) show ?thesis by simp
  next
    case False
    then have "hd (W @ C) \<in> set W" by simp
    with assms(12) show ?thesis by auto
  qed
  then have 2: "(a, b) \<notin> set (zip (B @ W @ C) (tl (B @ W @ C)))"
    using adjacent_append [of B "W @ C", THEN subsetD, of "(a, b)"] 1 assms(2)
    by auto
  have "hd (B @ W @ C) \<noteq> b"
    using assms(8) assms(9) by simp
  then have 3: "(a, b) \<notin> set (zip (S @ B @ W @ C) (tl (S @ B @ W @ C)))"
    using adjacent_append [of S "B @ W @ C", THEN subsetD, of "(a, b)"] 2 assms(4)
    by auto
  have "hd (S @ B @ W @ C) \<in> set S"
    using assms(6) by simp
  with assms(7) have "hd (S @ B @ W @ C) \<noteq> b"
    by auto
  then show ?thesis
    using adjacent_append [of A "S @ B @ W @ C", THEN subsetD, of "(a, b)"] 3 assms(1)
    by auto
qed

lemma category_names:
  "list_all (\<lambda>k. set k \<subseteq> set '' abcdefgijklmnopqrstuvwxyz''
       \<and> (CHR ''x'', CHR ''c'') \<notin> set (zip k (tl k)))
     (map replace_underscore required_keys)"
  by code_simp

lemma weak_names_parts:
  assumes "set (map fst scores) \<subseteq> set required_keys"
  shows "\<exists>ks. weak_names scores = join_with '', '' ks
            \<and> set ks \<subseteq> set (map replace_underscore required_keys)"
proof -
  let ?areas = "take 3 (sort_key snd scores)"
  let ?ks = "map (\<lambda>(k, v). replace_underscore k) ?areas"
  have "set ?areas \<subseteq> set scores"
    using set_take_subset [of 3 "sort_key snd scores"] by simp
  then have "fst ` set ?areas \<subseteq> set required_keys"
    using assms by auto
  then have "set ?ks \<subseteq> set (map replace_underscore required_keys)"
    by force
  moreover have "weak_names scores = join_with '', '' ?ks"
    by (simp add: weak_names_def Let_def)
  ultimately show ?thesis
    by blast
qed

lemma weak_names_chars:
  assumes "set (map fst scores) \<subseteq> set required_keys"
  shows "set (weak_names scores) \<subseteq> set '', abcdefgijklmnopqrstuvwxyz''"
    and "(CHR ''x'', CHR ''c'') \<notin> set (zip (weak_names scores) (tl (weak_names scores)))"
proof -
  from weak_names_parts [OF assms] obtain ks
    where W: "weak_names scores = join_with '', '' ks"
      and ks: "set ks \<subseteq> set (map replace_underscore required_keys)"
    by blast
  have names: "set k \<subseteq> set '' abcdefgijklmnopqrstuvwxyz''
      \<and> (CHR ''x'', CHR ''c'') \<notin> set (zip k (tl k))" if "k \<in> set ks" for k
    using category_names that ks unfolding list_all_iff by blast
  have "set (join_with '', '' ks) \<subseteq> set '', '' \<union> \<Union> (set ` set ks)"
    by (rule join_with_chars)
  also have "\<dots> \<subseteq> set '', abcdefgijklmnopqrstuvwxyz''"
  proof -
    have "set '' abcdefgijklmnopqrstuvwxyz'' \<subseteq> set '', abcdefgijklmnopqrstuvwxyz''"
      by (rule set_subset_Cons)
    moreover have "set '', '' \<subseteq> set '', abcdefgijklmnopqrstuvwxyz''"
      by simp
    ultimately show ?thesis
      using names by blast
  qed
  finally show "set (weak_names scores) \<subseteq> set '', abcdefgijklmnopqrstuvwxyz''"
    unfolding W .
  have "(CHR ''x'', CHR ''c'') \<notin> set (zip (join_with '', '' ks) (tl (join_with '', '' ks)))"
    by (rule join_with_adjacent) (use names in simp_all)
  then show "(CHR ''x'', CHR ''c'') \<notin> set (zip (weak_names scores) (tl (weak_names scores)))"
    unfolding W .
qed

lemma limited_text_pieces:
  "(CHR '' '', CHR ''h'') \<notin> set (zip limited_text_1 (tl limited_text_1))"
  "(CHR '' '', CHR ''h'') \<notin> set (zip limited_text_2 (tl limited_text_2))"
  "(CHR '' '', CHR ''h'') \<notin> set (zip limited_text_3 (tl limited_text_3))"
  "(CHR ''x'', CHR ''c'') \<notin> set (zip limited_text_1 (tl limited_text_1))"
  "(CHR ''x'', CHR ''c'') \<notin> set (zip limited_text_2 (tl limited_text_2))"
  "(CHR ''x'', CHR ''c'') \<notin> set (zip limited_text_3 (tl limited_text_3))"
  "limited_text_2 \<noteq> []" "hd limited_text_2 = CHR ''%''"
  "last limited_text_2 = CHR '' ''"
  "limited_text_3 \<noteq> []" "hd limited_text_3 = CHR ''.''"
  "sublist ''limited alignment'' limited_text_1"
  "sublist '' h'' ''strong hire''" "sublist ''xc'' ''excellent fit''"
  "list_all (\<lambda>c. c \<notin> set ''HXC'') limited_text_1"
  "list_all (\<lambda>c. c \<notin> set ''HXC'') limited_text_2"
  "list_all (\<lambda>c. c \<notin> set ''HXC'') limited_text_3"
  "lower ''limited alignment'' = ''limited alignment''"
  by code_simp+

lemma lower_char_source:
  "lower_char d = e \<Longrightarrow> d = e \<or> (d, e) \<in> set (zip upper_letters lower_letters)"
  by (auto simp: lower_char_def split: option.splits dest: map_of_SomeD)

lemma lower_char_preimages:
  "lower_char d = CHR '' '' \<Longrightarrow> d = CHR '' ''"
  "lower_char d = CHR ''h'' \<Longrightarrow> d = CHR ''h'' \<or> d = CHR ''H''"
  "lower_char d = CHR ''x'' \<Longrightarrow> d = CHR ''x'' \<or> d = CHR ''X''"
  "lower_char d = CHR ''c'' \<Longrightarrow> d = CHR ''c'' \<or> d = CHR ''C''"
  by (auto dest!: lower_char_source simp: upper_letters_def lower_letters_def)

lemma lower_adjacent:
  assumes "(a, b) \<in> set (zip (lower s) (tl (lower s)))"
  shows "\<exists>c d. (c, d) \<in> set (zip s (tl s)) \<and> lower_char c = a \<and> lower_char d = b"
proof -
  have "zip (lower s) (tl (lower s)) = zip (map lower_char s) (map lower_char (tl s))"
    by (simp only: lower_def map_tl)
  also have "\<dots> = map (\<lambda>(x, y). (lower_char x, lower_char y)) (zip s (tl s))"
    by (rule zip_map_map)
  finally show ?thesis
    using assms by auto
qed

lemma sublist_lower:
  assumes "sublist p s"
  shows "sublist (lower p) (lower s)"
proof -
  from assms obtain ps ss where "s = ps @ p @ ss"
    by (auto simp: sublist_def)
  then have "lower s = lower ps @ lower p @ lower ss"
    by (simp add: lower_def)
  then show ?thesis
    unfolding sublist_def by blast
qed

lemma sublist_in_front: "sublist p a \<Longrightarrow> sublist p (a @ b)"
  by (simp add: sublist_append)

lemma fallback_text_phrases:
  assumes "set (map fst scores) \<subseteq> set required_keys"
  shows "sublist ''limited alignment'' (limited_text (format_1f x) (weak_names scores))"
    and "strong_negative (lower (limited_text (format_1f x) (weak_names scores)))"
    and "\<not> strong_positive (lower (limited_text (format_1f x) (weak_names scores)))"
proof -
  let ?S = "format_1f x" and ?W = "weak_names scores"
  let ?raw = "limited_text ?S ?W"
  note raw = limited_text_def [of ?S ?W]
  show phrase: "sublist ''limited alignment'' ?raw"
    unfolding raw using limited_text_pieces(12) by (rule sublist_in_front)
  from sublist_lower [OF phrase] have "sublist ''limited alignment'' (lower ?raw)"
    by (simp only: limited_text_pieces(18))
  then show "strong_negative (lower ?raw)"
    by (simp add: strong_negative_def)
  have S: "c \<notin> set ?S" if "c \<in> set ''hcHXC''" for c
    using format_1f_chars [of x] that by auto
  have W: "c \<notin> set ?W" if "c \<in> set ''hHXC''" for c
    using weak_names_chars(1) [OF assms] that by auto
  have pieces: "c \<notin> set limited_text_1 \<and> c \<notin> set limited_text_2 \<and> c \<notin> set limited_text_3"
    if "c \<in> set ''HXC''" for c
    using limited_text_pieces(15,16,17) that unfolding list_all_iff by blast
  have capitals: "c \<notin> set ?raw" if "c \<in> set ''HXC''" for c
    using pieces [OF that] S [of c] W [of c] that unfolding raw by auto
  have no_h: "(CHR '' '', CHR ''h'') \<notin> set (zip ?raw (tl ?raw))"
    unfolding raw
  proof (rule no_pair_in_text)
    show "(CHR '' '', CHR ''h'') \<notin> set (zip ?S (tl ?S))"
      using S [of "CHR ''h''"] adjacent_members [of "CHR '' ''" "CHR ''h''" ?S] by auto
    show "(CHR '' '', CHR ''h'') \<notin> set (zip ?W (tl ?W))"
      using W [of "CHR ''h''"] adjacent_members [of "CHR '' ''" "CHR ''h''" ?W] by auto
    show "CHR ''h'' \<notin> set ?S"
      using S [of "CHR ''h''"] by simp
    show "last limited_text_2 \<noteq> CHR '' '' \<or> CHR ''h'' \<notin> set ?W"
      using W [of "CHR ''h''"] by simp
  qed (simp_all add: limited_text_pieces format_1f_nonempty)
  have no_xc: "(CHR ''x'', CHR ''c'') \<notin> set (zip ?raw (tl ?raw))"
    unfolding raw
  proof (rule no_pair_in_text)
    show "(CHR ''x'', CHR ''c'') \<notin> set (zip ?S (tl ?S))"
      using S [of "CHR ''c''"] adjacent_members [of "CHR ''x''" "CHR ''c''" ?S] by auto
    show "(CHR ''x'', CHR ''c'') \<notin> set (zip ?W (tl ?W))"
      by (rule weak_names_chars(2) [OF assms])
    show "CHR ''c'' \<notin> set ?S"
      using S [of "CHR ''c''"] by simp
  qed (simp_all add: limited_text_pieces format_1f_nonempty)
  have "\<not> sublist ''strong hire'' (lower ?raw)"
  proof
    assume "sublist ''strong hire'' (lower ?raw)"
    with limited_text_pieces(13) have "sublist '' h'' (lower ?raw)"
      by (rule sublist_order.order.trans)
    then have "(CHR '' '', CHR ''h'') \<in> set (zip (lower ?raw) (tl (lower ?raw)))"
      by (rule sublist_pair_adjacent)
    then obtain c d where cd: "(c, d) \<in> set (zip ?raw (tl ?raw))"
      and "lower_char c = CHR '' ''" and "lower_char d = CHR ''h''"
      using lower_adjacent by blast
    then have "c = CHR '' ''" and "d = CHR ''h'' \<or> d = CHR ''H''"
      by (simp_all add: lower_char_preimages)
    moreover have "d \<noteq> CHR ''H''"
      using adjacent_members [OF cd] capitals [of "CHR ''H''"] by auto
    ultimately show False
      using cd no_h by auto
  qed
  moreover have "\<not> sublist ''excellent fit'' (lower ?raw)"
  proof
    assume "sublist ''excellent fit'' (lower ?raw)"
    with limited_text_pieces(14) have "sublist ''xc'' (lower ?raw)"
      by (rule sublist_order.order.trans)
    then have "(CHR ''x'', CHR ''c'') \<in> set (zip (lower ?raw) (tl (lower ?raw)))"
      by (rule sublist_pair_adjacent)
    then obtain c d where cd: "(c, d) \<in> set (zip ?raw (tl ?raw))"
      and "lower_char c = CHR ''x''" and "lower_char d = CHR ''c''"
      using lower_adjacent by blast
    then have "c = CHR ''x'' \<or> c = CHR ''X''" and "d = CHR ''c'' \<or> d = CHR ''C''"
      by (simp_all add: lower_char_preimages)
    moreover have "c \<noteq> CHR ''X''" and "d \<noteq> CHR ''C''"
      using adjacent_members [OF cd] capitals [of "CHR ''X''"] capitals [of "CHR ''C''"]
      by auto
    ultimately show False
      using cd no_xc by auto
  qed
  ultimately show "\<not> strong_positive (lower ?raw)"
    by (simp add: strong_positive_def)
qed


lemma limited_text_nonempty: "limited_text score names \<noteq> []"
  by (simp add: limited_text_def limited_text_1_def)

text \<open>An evaluation with an overall score of 45.\<close>

lemma fallback_example:
  "format_1f 45 = ''45.0''"
  "weak_names (category_scores [50, 40, 45, 60, 30, 20, 70]) = ''certifications, projects, tools''"
  "critical_avg (category_scores [50, 40, 45, 60, 30, 20, 70]) = 45"
  "set (map fst (category_scores [50, 40, 45, 60, 30, 20, 70])) \<subseteq> set required_keys"
  by code_simp+

text \<open>
  Claim C10. When the external call gives no rationale, the rationale is the fallback
  text. For an overall score below 55 and a score map over the seven categories, that
  text is the one of the last branch; it contains the phrase \<open>limited alignment\<close>,
  which is a strong-negative phrase, and no strong-positive phrase, whatever the score
  and the three weakest categories are. So the tier is Low when overall is below 50 and
  Moderate otherwise. In particular, with overall from 40 to below 50 and a critical
  average of at least 30, the tier without a rationale is Moderate and the tier with the
  fallback text is Low.
\<close>

theorem fallback_text_forces_tier:
  "(overall < 55 \<and> set (map fst scores) \<subseteq> set required_keys
      \<longrightarrow> generate_fallback_reasoning overall scores
            = Inr (limited_text (format_1f overall) (weak_names scores))
        \<and> sublist ''limited alignment'' (limited_text (format_1f overall) (weak_names scores))
        \<and> strong_negative (lower (limited_text (format_1f overall) (weak_names scores)))
        \<and> \<not> strong_positive (lower (limited_text (format_1f overall) (weak_names scores)))
        \<and> tier_with_fallback overall scores = Inr (if overall < 50 then LOW else MODERATE))
   \<and> (40 \<le> overall \<and> overall < 50 \<and> 30 \<le> critical_avg scores
        \<and> set (map fst scores) \<subseteq> set required_keys
      \<longrightarrow> determine_candidate_tier overall scores None = MODERATE
        \<and> tier_with_fallback overall scores = Inr LOW)"
proof -
  have forced: "generate_fallback_reasoning overall scores
            = Inr (limited_text (format_1f overall) (weak_names scores))
        \<and> sublist ''limited alignment'' (limited_text (format_1f overall) (weak_names scores))
        \<and> strong_negative (lower (limited_text (format_1f overall) (weak_names scores)))
        \<and> \<not> strong_positive (lower (limited_text (format_1f overall) (weak_names scores)))
        \<and> tier_with_fallback overall scores = Inr (if overall < 50 then LOW else MODERATE)"
    if low: "overall < 55" and keys: "set (map fst scores) \<subseteq> set required_keys"
  proof -
    let ?text = "limited_text (format_1f overall) (weak_names scores)"
    have gen: "generate_fallback_reasoning overall scores = Inr ?text"
      using low by (simp add: generate_fallback_reasoning_def)
    note phrases = fallback_text_phrases [OF keys, of overall]
    have "determine_candidate_tier overall scores (Some ?text)
        = (if overall < 50 then LOW else MODERATE)"
      using phrases(2) phrases(3) limited_text_nonempty [of "format_1f overall" "weak_names scores"]
      by (simp add: determine_candidate_tier_def reasoning_adjustment_def Let_def)
    then have "tier_with_fallback overall scores = Inr (if overall < 50 then LOW else MODERATE)"
      by (simp add: tier_with_fallback_def gen)
    with gen phrases show ?thesis
      by simp
  qed
  have "determine_candidate_tier overall scores None = MODERATE"
    if "40 \<le> overall" and "overall < 50" and "30 \<le> critical_avg scores"
    using that
    by (simp add: determine_candidate_tier_def reasoning_adjustment_def safeguard_def
        base_tier_def)
  with forced show ?thesis
    by auto
qed

theorem fallback_text_forces_tier_witness:
  "(45::real) < 55 \<and> (40::real) \<le> 45 \<and> (45::real) < 50
   \<and> 30 \<le> critical_avg (category_scores [50, 40, 45, 60, 30, 20, 70])
   \<and> generate_fallback_reasoning 45 (category_scores [50, 40, 45, 60, 30, 20, 70])
       = Inr (limited_text ''45.0'' ''certifications, projects, tools'')
   \<and> determine_candidate_tier 45 (category_scores [50, 40, 45, 60, 30, 20, 70]) None = MODERATE
   \<and> tier_with_fallback 45 (category_scores [50, 40, 45, 60, 30, 20, 70]) = Inr LOW"
  using fallback_text_forces_tier [of 45 "category_scores [50, 40, 45, 60, 30, 20, 70]"]
    fallback_example
  by simp

end
